theory Spec2Isabelle
  imports Main "HOL-Library.Sublist"
begin

section \<open>Text\<close>

text \<open>
  The flow builders work on JavaScript strings. A string is modelled as a list of
  8-bit characters, the code units \<^verbatim>\<open>U+0000\<close> to \<^verbatim>\<open>U+00FF\<close>; text with other code units
  is outside this model. On these characters \<^verbatim>\<open>\d\<close> and \<^verbatim>\<open>\w\<close> accept the ASCII digits and
  word characters, \<^verbatim>\<open>\s\<close> accepts tab, line feed, vertical tab, form feed, carriage return,
  space and the no-break space \<^verbatim>\<open>U+00A0\<close>, and \<^verbatim>\<open>toLowerCase\<close> maps the letters \<^verbatim>\<open>A\<close> to \<^verbatim>\<open>Z\<close>
  and the capital letters \<^verbatim>\<open>U+00C0\<close> to \<^verbatim>\<open>U+00DE\<close> (all but the sign \<^verbatim>\<open>U+00D7\<close>) to the small
  letters 32 places further on.
\<close>

definition isDigit :: "char \<Rightarrow> bool" where
  "isDigit c = (c \<in> set ''0123456789'')"

definition isWord :: "char \<Rightarrow> bool" where
  "isWord c =
     (c \<in> set ''abcdefghijklmnopqrstuvwxyzABCDEFGHIJKLMNOPQRSTUVWXYZ0123456789_'')"

definition isSpace :: "char \<Rightarrow> bool" where
  "isSpace c = (c \<in> set [CHR '' '', CHR 0x09, CHR 0x0A, CHR 0x0B, CHR 0x0C, CHR 0x0D, CHR 0xA0])"

definition upperLatin1 :: string where
  "upperLatin1 =
        [CHR 0xC0, CHR 0xC1, CHR 0xC2, CHR 0xC3, CHR 0xC4, CHR 0xC5, CHR 0xC6,
         CHR 0xC7, CHR 0xC8, CHR 0xC9, CHR 0xCA, CHR 0xCB, CHR 0xCC, CHR 0xCD,
         CHR 0xCE, CHR 0xCF, CHR 0xD0, CHR 0xD1, CHR 0xD2, CHR 0xD3, CHR 0xD4,
         CHR 0xD5, CHR 0xD6, CHR 0xD8, CHR 0xD9, CHR 0xDA, CHR 0xDB, CHR 0xDC,
         CHR 0xDD, CHR 0xDE]"

definition lowerLatin1 :: string where
  "lowerLatin1 =
        [CHR 0xE0, CHR 0xE1, CHR 0xE2, CHR 0xE3, CHR 0xE4, CHR 0xE5, CHR 0xE6,
         CHR 0xE7, CHR 0xE8, CHR 0xE9, CHR 0xEA, CHR 0xEB, CHR 0xEC, CHR 0xED,
         CHR 0xEE, CHR 0xEF, CHR 0xF0, CHR 0xF1, CHR 0xF2, CHR 0xF3, CHR 0xF4,
         CHR 0xF5, CHR 0xF6, CHR 0xF8, CHR 0xF9, CHR 0xFA, CHR 0xFB, CHR 0xFC,
         CHR 0xFD, CHR 0xFE]"

definition toLowerChar :: "char \<Rightarrow> char" where
  "toLowerChar c =
     (case map_of (zip (''ABCDEFGHIJKLMNOPQRSTUVWXYZ'' @ upperLatin1)
                       (''abcdefghijklmnopqrstuvwxyz'' @ lowerLatin1)) c of
        Some l \<Rightarrow> l
      | None \<Rightarrow> c)"

definition toLowerCase :: "string \<Rightarrow> string" where
  "toLowerCase s = map toLowerChar s"

text \<open>\<^verbatim>\<open>s.includes(t)\<close>: \<open>t\<close> occurs in \<open>s\<close> as a contiguous run.\<close>

fun includesStr :: "string \<Rightarrow> string \<Rightarrow> bool" where
  "includesStr [] t = (t = [])"
| "includesStr (x # xs) t = (prefix t (x # xs) \<or> includesStr xs t)"

text \<open>\<^verbatim>\<open>parseInt\<close> on a run of decimal digits, and the decimal rendering of a
  non-negative integer in a template string. Both are exact below \<open>2^53\<close>.\<close>

definition digitVal :: "char \<Rightarrow> nat" where
  "digitVal c = length (takeWhile (\<lambda>d. d \<noteq> c) ''0123456789'')"

definition parseInt :: "string \<Rightarrow> nat" where
  "parseInt ds = foldl (\<lambda>n c. 10 * n + digitVal c) 0 ds"

definition digitChar :: "nat \<Rightarrow> char" where
  "digitChar n = ''0123456789'' ! n"

function showNat :: "nat \<Rightarrow> string" where
  "showNat n = (if n < 10 then [digitChar n] else showNat (n div 10) @ [digitChar (n mod 10)])"
  by pat_completeness auto

termination
  by (relation "measure id") auto

declare showNat.simps [simp del]

text \<open>JavaScript truthiness of a \<^verbatim>\<open>string | null | undefined\<close> value: \<^verbatim>\<open>null\<close>,
  \<^verbatim>\<open>undefined\<close> and the empty string are falsy.\<close>

fun truthy :: "string option \<Rightarrow> bool" where
  "truthy None = False"
| "truthy (Some s) = (s \<noteq> [])"

section \<open>Regular expressions\<close>

text \<open>
  The fragment of ECMAScript regular expressions that the source uses, with a
  backtracking matcher that tries the alternatives in the order the ECMAScript
  matcher does: a greedy quantifier takes a character first and gives it back on
  failure, a lazy one tries the rest of the pattern first. Quantifiers range over
  character classes only, as in the source.
\<close>

datatype cclass =
    Lit char        \<comment> \<open>a literal character\<close>
  | LitI char       \<comment> \<open>a literal character under the \<^verbatim>\<open>i\<close> flag\<close>
  | Space           \<comment> \<open>\<^verbatim>\<open>\s\<close>\<close>
  | Digit           \<comment> \<open>\<^verbatim>\<open>\d\<close>\<close>
  | Word            \<comment> \<open>\<^verbatim>\<open>\w\<close>\<close>
  | AnyChar         \<comment> \<open>\<^verbatim>\<open>[\s\S]\<close>\<close>

fun inClass :: "cclass \<Rightarrow> char \<Rightarrow> bool" where
  "inClass (Lit c) x = (x = c)"
| "inClass (LitI c) x = (toLowerChar x = toLowerChar c)"
| "inClass Space x = isSpace x"
| "inClass Digit x = isDigit x"
| "inClass Word x = isWord x"
| "inClass AnyChar x = True"

datatype re =
    Eps
  | Ch cclass
  | Plus cclass             \<comment> \<open>\<^verbatim>\<open>c+\<close>\<close>
  | Star cclass             \<comment> \<open>\<^verbatim>\<open>c*\<close>\<close>
  | LazyStar cclass         \<comment> \<open>\<^verbatim>\<open>c*?\<close>\<close>
  | Seq re re
  | Alt re re               \<comment> \<open>\<^verbatim>\<open>a|b\<close>\<close>
  | Opt re                  \<comment> \<open>\<^verbatim>\<open>(?:a)?\<close>\<close>
  | Group nat re            \<comment> \<open>capturing group number \<open>n\<close>\<close>
  | Close nat string        \<comment> \<open>end of group \<open>n\<close>, opened at the given input\<close>
  | Eol                     \<comment> \<open>\<^verbatim>\<open>$\<close> (no \<^verbatim>\<open>m\<close> flag)\<close>

type_synonym caps = "(nat \<times> string) list"

fun wt :: "re \<Rightarrow> nat" where
  "wt Eps = 1"
| "wt (Ch c) = 1"
| "wt (Plus c) = 2"
| "wt (Star c) = 1"
| "wt (LazyStar c) = 1"
| "wt (Seq a b) = 1 + wt a + wt b"
| "wt (Alt a b) = 1 + wt a + wt b"
| "wt (Opt a) = 1 + wt a"
| "wt (Group n a) = 2 + wt a"
| "wt (Close n s) = 1"
| "wt Eol = 1"

text \<open>\<open>matchRe k s cs\<close> matches the patterns \<open>k\<close>, one after the other, at the start of \<open>s\<close>;
  it returns the input left after the match and the captures.\<close>

function matchRe :: "re list \<Rightarrow> string \<Rightarrow> caps \<Rightarrow> (string \<times> caps) option" where
  "matchRe [] s cs = Some (s, cs)"
| "matchRe (Eps # k) s cs = matchRe k s cs"
| "matchRe (Ch c # k) [] cs = None"
| "matchRe (Ch c # k) (x # xs) cs = (if inClass c x then matchRe k xs cs else None)"
| "matchRe (Plus c # k) [] cs = None"
| "matchRe (Plus c # k) (x # xs) cs = (if inClass c x then matchRe (Star c # k) xs cs else None)"
| "matchRe (Star c # k) [] cs = matchRe k [] cs"
| "matchRe (Star c # k) (x # xs) cs =
     (if inClass c x
      then (case matchRe (Star c # k) xs cs of
              Some r \<Rightarrow> Some r
            | None \<Rightarrow> matchRe k (x # xs) cs)
      else matchRe k (x # xs) cs)"
| "matchRe (LazyStar c # k) [] cs = matchRe k [] cs"
| "matchRe (LazyStar c # k) (x # xs) cs =
     (case matchRe k (x # xs) cs of
        Some r \<Rightarrow> Some r
      | None \<Rightarrow> (if inClass c x then matchRe (LazyStar c # k) xs cs else None))"
| "matchRe (Seq a b # k) s cs = matchRe (a # b # k) s cs"
| "matchRe (Alt a b # k) s cs =
     (case matchRe (a # k) s cs of
        Some r \<Rightarrow> Some r
      | None \<Rightarrow> matchRe (b # k) s cs)"
| "matchRe (Opt a # k) s cs =
     (case matchRe (a # k) s cs of
        Some r \<Rightarrow> Some r
      | None \<Rightarrow> matchRe k s cs)"
| "matchRe (Group n a # k) s cs = matchRe (a # Close n s # k) s cs"
| "matchRe (Close n s0 # k) s cs = matchRe k s ((n, take (length s0 - length s) s0) # cs)"
| "matchRe (Eol # k) s cs = (if s = [] then matchRe k s cs else None)"
  by pat_completeness auto

termination
  by (relation "measures [\<lambda>(k, s, cs). sum_list (map wt k), \<lambda>(k, s, cs). length s]") auto

text \<open>A concatenation, and a literal word.\<close>

definition seq :: "re list \<Rightarrow> re" where
  "seq rs = foldr Seq rs Eps"

definition lit :: "string \<Rightarrow> re" where
  "lit s = seq (map (\<lambda>c. Ch (Lit c)) s)"

definition litI :: "string \<Rightarrow> re" where
  "litI s = seq (map (\<lambda>c. Ch (LitI c)) s)"

text \<open>\<^verbatim>\<open>regex.exec\<close> from the current position: the leftmost position where the pattern
  matches. The result is the text skipped before the match, the text left after it
  (where the next \<^verbatim>\<open>exec\<close> of a \<^verbatim>\<open>g\<close> pattern starts) and the captures.\<close>

fun exec :: "re \<Rightarrow> string \<Rightarrow> (string \<times> string \<times> caps) option" where
  "exec r [] =
     (case matchRe [r] [] [] of
        Some (rest, cs) \<Rightarrow> Some ([], rest, cs)
      | None \<Rightarrow> None)"
| "exec r (x # xs) =
     (case matchRe [r] (x # xs) [] of
        Some (rest, cs) \<Rightarrow> Some ([], rest, cs)
      | None \<Rightarrow>
          (case exec r xs of
             Some (pre, rest, cs) \<Rightarrow> Some (x # pre, rest, cs)
           | None \<Rightarrow> None))"

definition cap :: "caps \<Rightarrow> nat \<Rightarrow> string option" where
  "cap cs n = map_of cs n"

text \<open>\<^verbatim>\<open>/module\s+(_Z\d+\w+)\s*\(([\s\S]*?)\);([\s\S]*?)endmodule/g\<close>\<close>

definition moduleRegex :: re where
  "moduleRegex =
     seq [lit ''module'', Plus Space,
          Group 1 (seq [lit ''_Z'', Plus Digit, Plus Word]),
          Star Space, lit ''('', Group 2 (LazyStar AnyChar), lit '');'',
          Group 3 (LazyStar AnyChar), lit ''endmodule'']"

text \<open>\<^verbatim>\<open>/(input|output)\s+(?:\[(\d+):(\d+)\]\s+)?(\w+)\s*;/g\<close>\<close>

definition portRegex :: re where
  "portRegex =
     seq [Group 1 (Alt (lit ''input'') (lit ''output'')), Plus Space,
          Opt (seq [lit ''['', Group 2 (Plus Digit), lit '':'', Group 3 (Plus Digit),
                    lit '']'', Plus Space]),
          Group 4 (Plus Word), Star Space, lit '';'']"

text \<open>\<^verbatim>\<open>/\.(cpp|cc|cxx|c)$/i\<close>\<close>

definition extRegex :: re where
  "extRegex =
     seq [lit ''.'', Group 1 (Alt (litI ''cpp'') (Alt (litI ''cc'') (Alt (litI ''cxx'') (litI ''c'')))),
          Eol]"

subsection \<open>Every match of the source's patterns consumes input\<close>

fun minLen :: "re \<Rightarrow> nat" where
  "minLen Eps = 0"
| "minLen (Ch c) = 1"
| "minLen (Plus c) = 1"
| "minLen (Star c) = 0"
| "minLen (LazyStar c) = 0"
| "minLen (Seq a b) = minLen a + minLen b"
| "minLen (Alt a b) = min (minLen a) (minLen b)"
| "minLen (Opt a) = 0"
| "minLen (Group n a) = minLen a"
| "minLen (Close n s) = 0"
| "minLen Eol = 0"

lemma matchRe_minLen:
  "matchRe k s cs = Some (rest, cs') \<Longrightarrow> length rest + sum_list (map minLen k) \<le> length s"
  by (induction k s cs rule: matchRe.induct) (auto split: if_splits option.splits)

lemma exec_split:
  "exec r s = Some (pre, rest, cs) \<Longrightarrow>
     \<exists>s'. s = pre @ s' \<and> matchRe [r] s' [] = Some (rest, cs)"
  by (induction s arbitrary: pre) (auto split: option.splits)

lemma exec_shorter:
  assumes "exec r s = Some (pre, rest, cs)" and "0 < minLen r"
  shows "length rest < length s"
proof -
  from assms(1) obtain s' where s: "s = pre @ s'" and m: "matchRe [r] s' [] = Some (rest, cs)"
    using exec_split by blast
  from matchRe_minLen [OF m] assms(2) have "length rest < length s'" by simp
  with s show ?thesis by simp
qed

lemma minLen_moduleRegex: "0 < minLen moduleRegex"
  by (simp add: moduleRegex_def seq_def lit_def)

lemma minLen_portRegex: "0 < minLen portRegex"
  by (simp add: portRegex_def seq_def lit_def)

section \<open>Ports of the top module\<close>

datatype direction = Input | Output

text \<open>A port as \<^verbatim>\<open>parseHLSVerilogPorts\<close> returns it. The bit indices come from \<^verbatim>\<open>parseInt\<close> on
  digit runs (0 when the declaration has no range); they are natural numbers here, which
  is what the JavaScript numbers are below \<open>2^53\<close>.\<close>

record port =
  port_name :: string
  port_direction :: direction
  port_msb :: nat
  port_lsb :: nat

text \<open>The first group of the port pattern is \<^verbatim>\<open>input\<close> or \<^verbatim>\<open>output\<close>; the source casts it
  to the direction type and later only asks whether it is \<^verbatim>\<open>"input"\<close>.\<close>

definition directionOf :: "string option \<Rightarrow> direction" where
  "directionOf d = (if d = Some ''input'' then Input else Output)"

definition directionStr :: "direction \<Rightarrow> string" where
  "directionStr d = (case d of Input \<Rightarrow> ''input'' | Output \<Rightarrow> ''output'')"

definition portOfMatch :: "caps \<Rightarrow> port" where
  "portOfMatch portMatch =
     \<lparr>port_name = (case cap portMatch 4 of Some n \<Rightarrow> n | None \<Rightarrow> []),
      port_direction = directionOf (cap portMatch 1),
      port_msb = (case cap portMatch 2 of Some ds \<Rightarrow> parseInt ds | None \<Rightarrow> 0),
      port_lsb = (case cap portMatch 3 of Some ds \<Rightarrow> parseInt ds | None \<Rightarrow> 0)\<rparr>"

text \<open>The inner \<^verbatim>\<open>while\<close> loop of \<^verbatim>\<open>parseHLSVerilogPorts\<close>: every port declaration of the
  module body, in textual order.\<close>

function portLoop :: "string \<Rightarrow> port list \<Rightarrow> port list" where
  "portLoop moduleBody ports =
     (case exec portRegex moduleBody of
        None \<Rightarrow> ports
      | Some (pre, rest, portMatch) \<Rightarrow> portLoop rest (ports @ [portOfMatch portMatch]))"
  by pat_completeness auto

termination
  by (relation "measure (\<lambda>(s, ports). length s)") (auto dest: exec_shorter simp: minLen_portRegex)

declare portLoop.simps [simp del]

text \<open>The outer \<^verbatim>\<open>while\<close> loop: the first match of the module pattern whose name contains
  the top function's name, both in lower case. Groups 1 and 3 take part in every match
  of the pattern (lemma \<open>moduleRegex_groups\<close> below), so the last case is never reached.\<close>

function moduleLoop :: "string \<Rightarrow> string \<Rightarrow> (string \<times> port list) option" where
  "moduleLoop topFunctionName content =
     (case exec moduleRegex content of
        None \<Rightarrow> None
      | Some (pre, rest, match) \<Rightarrow>
          (case (cap match 1, cap match 3) of
             (Some moduleName, Some moduleBody) \<Rightarrow>
               if includesStr (toLowerCase moduleName) (toLowerCase topFunctionName)
               then Some (moduleName, portLoop moduleBody [])
               else moduleLoop topFunctionName rest
           | _ \<Rightarrow> None))"
  by pat_completeness auto

termination
  by (relation "measure (\<lambda>(t, s). length s)") (auto dest: exec_shorter simp: minLen_moduleRegex)

declare moduleLoop.simps [simp del]

section \<open>Files and notifications\<close>

text \<open>
  The file system is a map from paths to contents. Every file-system call and every
  notification is appended to a trace, so that what a builder did can be stated.
\<close>

datatype event =
    Exists string
  | ReadTextFile string
  | WriteTextFile string string
  | FailedNotification string string
  | ConsoleError string

record world =
  files :: "string \<rightharpoonup> string"
  trace :: "event list"

definition emit :: "event \<Rightarrow> world \<Rightarrow> world" where
  "emit e w = w\<lparr>trace := trace w @ [e]\<rparr>"

definition existsFile :: "string \<Rightarrow> world \<Rightarrow> bool \<times> world" where
  "existsFile p w = (files w p \<noteq> None, emit (Exists p) w)"

text \<open>\<^verbatim>\<open>readTextFile\<close> throws when there is no file: the result \<open>None\<close>.\<close>

definition readTextFile :: "string \<Rightarrow> world \<Rightarrow> string option \<times> world" where
  "readTextFile p w = (files w p, emit (ReadTextFile p) w)"

definition writeTextFile :: "string \<Rightarrow> string \<Rightarrow> world \<Rightarrow> world" where
  "writeTextFile p c w = emit (WriteTextFile p c) (w\<lparr>files := (files w)(p \<mapsto> c)\<rparr>)"

definition showFailedNotification :: "string \<Rightarrow> string \<Rightarrow> world \<Rightarrow> world" where
  "showFailedNotification title message w = emit (FailedNotification title message) w"

text \<open>\<^verbatim>\<open>parseHLSVerilogPorts\<close>: a failed read is caught, logged and answered with \<^verbatim>\<open>null\<close>.\<close>

definition parseHLSVerilogPorts ::
  "string \<Rightarrow> string \<Rightarrow> world \<Rightarrow> (string \<times> port list) option \<times> world" where
  "parseHLSVerilogPorts verilogPath topFunctionName w =
     (case readTextFile verilogPath w of
        (None, w') \<Rightarrow> (None, emit (ConsoleError ''Failed to parse HLS Verilog:'') w')
      | (Some content, w') \<Rightarrow> (moduleLoop topFunctionName content, w'))"

section \<open>Projects and their environment\<close>

record projectFile =
  file_name :: string
  file_path :: string
  file_type :: string

record bambuSettings =
  topFunction :: "string option"

record projectSettings =
  bambu :: "bambuSettings option"
  place_mode :: string
  route_mode :: string

record projectInfo =
  project_name :: string
  project_path :: string
  file_lists :: "projectFile list"
  settings :: projectSettings

text \<open>
  The pin table \<^verbatim>\<open>devicePorts.FDP3P7\<close> and the helpers \<^verbatim>\<open>getDirOfFile\<close> and
  \<^verbatim>\<open>resolveResource\<close> are imported by the source from modules outside it; the builders
  take them as an environment.
\<close>

record devicePins =
  pins_input :: "string list"
  pins_output :: "string list"

record env =
  getDirOfFile :: "string \<Rightarrow> string"
  resolveResource :: "string \<Rightarrow> string"
  FDP3P7 :: devicePins

record command =
  program :: string
  args :: "string list"
  cwd :: string

definition isCSource :: "projectFile \<Rightarrow> bool" where
  "isCSource file = (file_type file = ''cpp'' \<or> file_type file = ''c'')"

text \<open>\<^verbatim>\<open>cppFile.name.replace(/\.(cpp|cc|cxx|c)$/i, "")\<close>\<close>

definition baseNameOf :: "string \<Rightarrow> string" where
  "baseNameOf n =
     (case exec extRegex n of
        None \<Rightarrow> n
      | Some (pre, rest, m) \<Rightarrow> pre @ rest)"

text \<open>\<^verbatim>\<open>project.settings.bambu?.topFunction || "main"\<close>\<close>

definition topFunctionOf :: "projectInfo \<Rightarrow> string" where
  "topFunctionOf project =
     (case bambu (settings project) of
        None \<Rightarrow> ''main''
      | Some b \<Rightarrow>
          (case topFunction b of
             None \<Rightarrow> ''main''
           | Some t \<Rightarrow> if t = [] then ''main'' else t))"

section \<open>Pin allocation\<close>

record assignment =
  asg_name :: string
  asg_pin :: string
  asg_direction :: direction

text \<open>The closure \<^verbatim>\<open>assignPin\<close>, with the two counters it updates passed in and out.\<close>

fun assignPin :: "devicePins \<Rightarrow> direction \<Rightarrow> nat \<times> nat \<Rightarrow> string option \<times> (nat \<times> nat)" where
  "assignPin dp Input (inputIdx, outputIdx) =
     (if inputIdx \<ge> length (pins_input dp) then (None, (inputIdx, outputIdx))
      else (Some (pins_input dp ! inputIdx), (Suc inputIdx, outputIdx)))"
| "assignPin dp Output (inputIdx, outputIdx) =
     (if outputIdx \<ge> length (pins_output dp) then (None, (inputIdx, outputIdx))
      else (Some (pins_output dp ! outputIdx), (inputIdx, Suc outputIdx)))"

text \<open>
  The allocation keeps the port-instance name, the pin and the direction of every
  assignment; the source pushes the rendered line (\<open>portLine\<close> below) at once.
  A failure carries the direction that the notification names. The test \<^verbatim>\<open>!pin\<close> of
  the source fails on \<^verbatim>\<open>null\<close> and on an empty pin name alike.
\<close>

function busLoop ::
  "devicePins \<Rightarrow> port \<Rightarrow> nat \<Rightarrow> nat \<Rightarrow> (nat \<times> nat) \<times> assignment list \<Rightarrow>
     direction + ((nat \<times> nat) \<times> assignment list)" where
  "busLoop dp port i high (idx, acc) =
     (if i \<le> high
      then (case assignPin dp (port_direction port) idx of
              (None, idx') \<Rightarrow> Inl (port_direction port)
            | (Some pin, idx') \<Rightarrow>
                if pin = [] then Inl (port_direction port)
                else busLoop dp port (Suc i) high
                       (idx', acc @ [\<lparr>asg_name = port_name port @ ''['' @ showNat i @ '']'',
                                      asg_pin = pin,
                                      asg_direction = port_direction port\<rparr>]))
      else Inr (idx, acc))"
  by pat_completeness auto

termination
  by (relation "measure (\<lambda>(dp, port, i, high, st). Suc high - i)") auto

declare busLoop.simps [simp del]

fun portsLoop ::
  "devicePins \<Rightarrow> port list \<Rightarrow> (nat \<times> nat) \<times> assignment list \<Rightarrow>
     direction + ((nat \<times> nat) \<times> assignment list)" where
  "portsLoop dp [] st = Inr st"
| "portsLoop dp (port # ports) (idx, acc) =
     (if port_name port = ''clock'' then portsLoop dp ports (idx, acc)
      else if port_msb port \<noteq> port_lsb port
      then (case busLoop dp port (min (port_msb port) (port_lsb port))
                   (max (port_msb port) (port_lsb port)) (idx, acc) of
              Inl d \<Rightarrow> Inl d
            | Inr st' \<Rightarrow> portsLoop dp ports st')
      else (case assignPin dp (port_direction port) idx of
              (None, idx') \<Rightarrow> Inl (port_direction port)
            | (Some pin, idx') \<Rightarrow>
                if pin = [] then Inl (port_direction port)
                else portsLoop dp ports
                       (idx', acc @ [\<lparr>asg_name = port_name port,
                                      asg_pin = pin,
                                      asg_direction = port_direction port\<rparr>])))"

text \<open>The whole allocation, from both counters at 0 and no assignment.\<close>

definition allocatePins :: "devicePins \<Rightarrow> port list \<Rightarrow> direction + assignment list" where
  "allocatePins dp ports =
     (case portsLoop dp ports ((0, 0), []) of
        Inl d \<Rightarrow> Inl d
      | Inr (idx, acc) \<Rightarrow> Inr acc)"

section \<open>The constraint file\<close>

definition dq :: string where
  "dq = [CHR 0x22]"

definition portLine :: "assignment \<Rightarrow> string" where
  "portLine a = ''  <port name='' @ dq @ asg_name a @ dq @ '' position='' @ dq @ asg_pin a @ dq @ ''/>''"

fun joinWith :: "string \<Rightarrow> string list \<Rightarrow> string" where
  "joinWith sep [] = []"
| "joinWith sep [x] = x"
| "joinWith sep (x # y # ys) = x @ sep @ joinWith sep (y # ys)"

definition xmlContent :: "string \<Rightarrow> assignment list \<Rightarrow> string" where
  "xmlContent moduleName asgs =
     ''<design name='' @ dq @ moduleName @ dq @ ''>'' @ [CHR 0x0A] @
     joinWith [CHR 0x0A] (map portLine asgs) @ [CHR 0x0A] @ ''</design>''"

definition constraintFileName :: "projectInfo \<Rightarrow> string" where
  "constraintFileName project = project_name project @ ''_bambu_cons.xml''"

definition constraintFilePath :: "env \<Rightarrow> projectInfo \<Rightarrow> string" where
  "constraintFilePath e project = getDirOfFile e (project_path project) @ constraintFileName project"

definition generateBambuConstraintFile ::
  "env \<Rightarrow> projectInfo \<Rightarrow> world \<Rightarrow> string option \<times> world" where
  "generateBambuConstraintFile e project w =
     (let projectDir = getDirOfFile e (project_path project) in
      case existsFile (constraintFilePath e project) w of
        (True, w1) \<Rightarrow> (Some (constraintFilePath e project), w1)
      | (False, w1) \<Rightarrow>
          (case find isCSource (file_lists project) of
             None \<Rightarrow> (None, w1)
           | Some cppFile \<Rightarrow>
               (let baseName = baseNameOf (file_name cppFile);
                    verilogPath = projectDir @ baseName @ ''.v'' in
                case existsFile verilogPath w1 of
                  (False, w2) \<Rightarrow>
                    (None, showFailedNotification ''Constraint Generation''
                             (''HLS-generated Verilog file not found: '' @ baseName @ ''.v'') w2)
                | (True, w2) \<Rightarrow>
                    (case parseHLSVerilogPorts verilogPath (topFunctionOf project) w2 of
                       (None, w3) \<Rightarrow>
                         (None, showFailedNotification ''Constraint Generation''
                                  ''Could not find top module in HLS-generated Verilog.'' w3)
                     | (Some (moduleName, ports), w3) \<Rightarrow>
                         (case allocatePins (FDP3P7 e) ports of
                            Inl d \<Rightarrow>
                              (None, showFailedNotification ''Constraint Generation''
                                       (''Not enough '' @ directionStr d @ '' pins for the design.'') w3)
                          | Inr asgs \<Rightarrow>
                              (Some (constraintFilePath e project),
                               writeTextFile (constraintFilePath e project)
                                 (xmlContent moduleName asgs) w3))))))"

section \<open>Stage command builders\<close>

text \<open>
  Each builder returns the descriptor of the command to run, or nothing
  (\<^verbatim>\<open>undefined\<close>) after a failure notification. The descriptor is not executed here.
  The HLS builder names no artifact (the external tool derives the name of its output
  from the source file), so it is not part of this development.
\<close>

definition synthOutputFileName :: "projectInfo \<Rightarrow> string" where
  "synthOutputFileName project = project_name project @ ''_bambu_'' @ ''syn.edf''"

definition synthInputFile :: "projectFile \<Rightarrow> string" where
  "synthInputFile cppFile = baseNameOf (file_name cppFile) @ ''.v''"

definition runBambuSynthFlowCommand ::
  "env \<Rightarrow> projectInfo \<Rightarrow> world \<Rightarrow> command option \<times> world" where
  "runBambuSynthFlowCommand e project w =
     (let outputFileName = synthOutputFileName project;
          tclScript = resolveResource e ''resource/yosys/yosys_fde.tcl'';
          simlibFile = resolveResource e ''resource/yosys/fdesimlib.v'';
          techmapFile = resolveResource e ''resource/yosys/techmap.v'';
          cellsMapFile = resolveResource e ''resource/yosys/cells_map.v'' in
      case find isCSource (file_lists project) of
        None \<Rightarrow>
          (None, showFailedNotification ''Bambu Synth''
                   ''No C/C++ source files found in the project.'' w)
      | Some cppFile \<Rightarrow>
          (let inputFile = synthInputFile cppFile;
               projectDir = getDirOfFile e (project_path project);
               tclLine = ''tcl '' @ tclScript @ '' -l '' @ simlibFile @ '' -m '' @ techmapFile @
                         '' -c '' @ cellsMapFile @ '' -o '' @ outputFileName in
           (Some \<lparr>program = ''binaries/yosys'',
                   args = [''-p'', tclLine, projectDir @ inputFile],
                   cwd = projectDir\<rparr>, w)))"

definition mapInputFileName :: "projectInfo \<Rightarrow> string" where
  "mapInputFileName project = project_name project @ ''_bambu_'' @ ''syn.edf''"

definition mapOutputFileName :: "projectInfo \<Rightarrow> string" where
  "mapOutputFileName project = project_name project @ ''_bambu_'' @ ''map.xml''"

definition runBambuMapFlowCommand :: "env \<Rightarrow> projectInfo \<Rightarrow> command" where
  "runBambuMapFlowCommand e project =
     (let celllibfilePath = resolveResource e ''resource/hw_lib/dc_cell.xml'' in
      \<lparr>program = ''binaries/fde-cli/map'',
       args = [''-y'', ''-i'', mapInputFileName project, ''-o'', mapOutputFileName project,
               ''-c'', celllibfilePath, ''-e''],
       cwd = getDirOfFile e (project_path project)\<rparr>)"

definition packInputFileName :: "projectInfo \<Rightarrow> string" where
  "packInputFileName project = project_name project @ ''_bambu_'' @ ''map.xml''"

definition packOutputFileName :: "projectInfo \<Rightarrow> string" where
  "packOutputFileName project = project_name project @ ''_bambu_'' @ ''pack.xml''"

definition runBambuPackFlowCommand :: "env \<Rightarrow> projectInfo \<Rightarrow> command" where
  "runBambuPackFlowCommand e project =
     (let family = ''fdp3'';
          celllibfilePath = resolveResource e ''resource/hw_lib/fdp3_cell.xml'';
          plibfilePath = resolveResource e ''resource/hw_lib/fdp3_dcplib.xml'';
          xdlcfgfilePath = resolveResource e ''resource/hw_lib/fdp3_config.xml'' in
      \<lparr>program = ''binaries/fde-cli/pack'',
       args = [''-c'', family, ''-n'', packInputFileName project, ''-l'', celllibfilePath,
               ''-r'', plibfilePath, ''-o'', packOutputFileName project,
               ''-g'', xdlcfgfilePath, ''-e''],
       cwd = getDirOfFile e (project_path project)\<rparr>)"

text \<open>\<^verbatim>\<open>project.file_lists.filter((file) => file.type === "constraint")[0]?.path\<close>\<close>

definition declaredConstraint :: "projectInfo \<Rightarrow> string option" where
  "declaredConstraint project =
     (case filter (\<lambda>file. file_type file = ''constraint'') (file_lists project) of
        [] \<Rightarrow> None
      | file # _ \<Rightarrow> Some (file_path file))"

definition getPlaceMode :: "projectInfo \<Rightarrow> string" where
  "getPlaceMode project =
     (if place_mode (settings project) = ''Bounding Box'' then ''-b'' else ''-t'')"

definition placeInputFileName :: "projectInfo \<Rightarrow> string" where
  "placeInputFileName project = project_name project @ ''_bambu_'' @ ''pack.xml''"

definition placeOutputFileName :: "projectInfo \<Rightarrow> string" where
  "placeOutputFileName project = project_name project @ ''_bambu_'' @ ''place.xml''"

text \<open>The descriptor of the placement command, once the constraint path is known.\<close>

definition placeCommand :: "env \<Rightarrow> projectInfo \<Rightarrow> string \<Rightarrow> command" where
  "placeCommand e project placecstFilePath =
     (let archfilePath = resolveResource e ''resource/hw_lib/fdp3p7_arch.xml'';
          plcdelayfilePath = resolveResource e ''resource/hw_lib/fdp3p7_dly.xml'';
          placeMode = getPlaceMode project in
      \<lparr>program = ''binaries/fde-cli/place'',
       args = [''-a'', archfilePath, ''-d'', plcdelayfilePath, ''-i'', placeInputFileName project,
               ''-o'', placeOutputFileName project, ''-c'', placecstFilePath, placeMode, ''-e''],
       cwd = getDirOfFile e (project_path project)\<rparr>)"

definition runBambuPlaceFlowCommand ::
  "env \<Rightarrow> projectInfo \<Rightarrow> world \<Rightarrow> command option \<times> world" where
  "runBambuPlaceFlowCommand e project w =
     (if truthy (declaredConstraint project)
      then (case declaredConstraint project of
              Some placecstFilePath \<Rightarrow> (Some (placeCommand e project placecstFilePath), w)
            | None \<Rightarrow> (None, w))
      else (case generateBambuConstraintFile e project w of
              (generated, w1) \<Rightarrow>
                if \<not> truthy generated
                then (None, showFailedNotification ''Place''
                              ''Failed to generate constraint file. Please add a constraint file manually.'' w1)
                else (case generated of
                        Some placecstFilePath \<Rightarrow> (Some (placeCommand e project placecstFilePath), w1)
                      | None \<Rightarrow> (None, w1))))"

definition getRouteMode :: "projectInfo \<Rightarrow> string" where
  "getRouteMode project =
     (if route_mode (settings project) = ''Direct Search'' then ''-d''
      else if route_mode (settings project) = ''Breath First'' then ''-b''
      else ''-t'')"

definition routeInputFileName :: "projectInfo \<Rightarrow> string" where
  "routeInputFileName project = project_name project @ ''_bambu_'' @ ''place.xml''"

definition routeOutputFileName :: "projectInfo \<Rightarrow> string" where
  "routeOutputFileName project = project_name project @ ''_bambu_'' @ ''route.xml''"

definition routeCommand :: "env \<Rightarrow> projectInfo \<Rightarrow> string \<Rightarrow> command" where
  "routeCommand e project routecstFilePath =
     (let archfilePath = resolveResource e ''resource/hw_lib/fdp3p7_arch.xml'';
          routeMode = getRouteMode project in
      \<lparr>program = ''binaries/fde-cli/route'',
       args = [''-a'', archfilePath, ''-n'', routeInputFileName project,
               ''-o'', routeOutputFileName project, routeMode, ''-c'', routecstFilePath, ''-e''],
       cwd = getDirOfFile e (project_path project)\<rparr>)"

definition runBambuRouteFlowCommand ::
  "env \<Rightarrow> projectInfo \<Rightarrow> world \<Rightarrow> command option \<times> world" where
  "runBambuRouteFlowCommand e project w =
     (if truthy (declaredConstraint project)
      then (case declaredConstraint project of
              Some routecstFilePath \<Rightarrow> (Some (routeCommand e project routecstFilePath), w)
            | None \<Rightarrow> (None, w))
      else (let projectDir = getDirOfFile e (project_path project);
                autoConstraintPath = projectDir @ project_name project @ ''_bambu_cons.xml'' in
            case existsFile autoConstraintPath w of
              (True, w1) \<Rightarrow> (Some (routeCommand e project autoConstraintPath), w1)
            | (False, w1) \<Rightarrow>
                (None, showFailedNotification ''Route'' ''Constraint file not found.'' w1)))"

definition genBitInputFileName :: "projectInfo \<Rightarrow> string" where
  "genBitInputFileName project = project_name project @ ''_bambu_'' @ ''route.xml''"

definition genBitOutputFileName :: "projectInfo \<Rightarrow> string" where
  "genBitOutputFileName project = project_name project @ ''_bambu_'' @ ''bit.bit''"

definition runBambuGenBitFlowCommand :: "env \<Rightarrow> projectInfo \<Rightarrow> command" where
  "runBambuGenBitFlowCommand e project =
     (let archfilePath = resolveResource e ''resource/hw_lib/fdp3p7_arch.xml'';
          cilfilePath = resolveResource e ''resource/hw_lib/fdp3p7_cil.xml'' in
      \<lparr>program = ''binaries/fde-cli/bitgen'',
       args = [''-a'', archfilePath, ''-c'', cilfilePath, ''-n'', genBitInputFileName project,
               ''-b'', genBitOutputFileName project, ''-e''],
       cwd = getDirOfFile e (project_path project)\<rparr>)"

text \<open>The table \<^verbatim>\<open>bambuFlows\<close>: the stages in order, with the \<^verbatim>\<open>target_file\<close> of each
  (the HLS stage has none).\<close>

definition bambuFlows :: "(string \<times> string option) list" where
  "bambuFlows =
     [(''bambu.hls'', None),
      (''bambu.synth'', Some ''bambu_syn.edf''),
      (''bambu.map'', Some ''bambu_map.xml''),
      (''bambu.pack'', Some ''bambu_pack.xml''),
      (''bambu.place'', Some ''bambu_place.xml''),
      (''bambu.route'', Some ''bambu_route.xml''),
      (''bambu.genbit'', Some ''bambu_bit.bit'')]"

section \<open>Notions used to state the claims\<close>

text \<open>
  Notions used to state what the allocation does: the pin sequence and the counter of a
  direction, the number of pins a port takes, the number of pins that the ports of
  one direction take together, and the assignments of one bus.
\<close>

definition pinsOf :: "devicePins \<Rightarrow> direction \<Rightarrow> string list" where
  "pinsOf dp d = (case d of Input \<Rightarrow> pins_input dp | Output \<Rightarrow> pins_output dp)"

definition idxOf :: "direction \<Rightarrow> nat \<times> nat \<Rightarrow> nat" where
  "idxOf d idx = (case d of Input \<Rightarrow> fst idx | Output \<Rightarrow> snd idx)"

definition advance :: "direction \<Rightarrow> nat \<Rightarrow> nat \<times> nat \<Rightarrow> nat \<times> nat" where
  "advance d n idx = (case d of Input \<Rightarrow> (fst idx + n, snd idx) | Output \<Rightarrow> (fst idx, snd idx + n))"

definition portWidth :: "port \<Rightarrow> nat" where
  "portWidth p =
     (if port_msb p \<noteq> port_lsb p
      then max (port_msb p) (port_lsb p) - min (port_msb p) (port_lsb p) + 1
      else 1)"

definition pinsNeeded :: "direction \<Rightarrow> port list \<Rightarrow> nat" where
  "pinsNeeded d ports =
     sum_list (map portWidth (filter (\<lambda>p. port_name p \<noteq> ''clock'' \<and> port_direction p = d) ports))"

definition busAssignments :: "devicePins \<Rightarrow> port \<Rightarrow> nat \<Rightarrow> nat \<Rightarrow> nat \<Rightarrow> assignment list" where
  "busAssignments dp p start i high =
     map (\<lambda>k. \<lparr>asg_name = port_name p @ ''['' @ showNat k @ '']'',
               asg_pin = pinsOf dp (port_direction p) ! (start + (k - i)),
               asg_direction = port_direction p\<rparr>) [i..<Suc high]"

text \<open>What has been assigned so far is, per direction, the start of the pin sequence.\<close>

definition consumed :: "devicePins \<Rightarrow> nat \<times> nat \<Rightarrow> assignment list \<Rightarrow> bool" where
  "consumed dp idx acc =
     (\<forall>d. map asg_pin (filter (\<lambda>a. asg_direction a = d) acc) = take (idxOf d idx) (pinsOf dp d)
          \<and> idxOf d idx \<le> length (pinsOf dp d))"

text \<open>The path of the generated Verilog file that constraint generation reads.\<close>

definition verilogPathOf :: "env \<Rightarrow> projectInfo \<Rightarrow> projectFile \<Rightarrow> string" where
  "verilogPathOf e project cppFile =
     getDirOfFile e (project_path project) @ baseNameOf (file_name cppFile) @ ''.v''"

text \<open>The first file of the project that is tagged \<^verbatim>\<open>constraint\<close>, if there is one.\<close>

definition firstConstraint :: "projectInfo \<Rightarrow> projectFile option" where
  "firstConstraint project = find (\<lambda>file. file_type file = ''constraint'') (file_lists project)"

definition placeFailure :: "world \<Rightarrow> world" where
  "placeFailure w =
     showFailedNotification ''Place''
       ''Failed to generate constraint file. Please add a constraint file manually.'' w"

definition routeFailure :: "world \<Rightarrow> world" where
  "routeFailure w = showFailedNotification ''Route'' ''Constraint file not found.'' w"

text \<open>
  Notions used to state what port extraction does, in terms of the text alone.
  \<open>endsAtFirst w u\<close>: in \<open>u @ w\<close> the word \<open>w\<close> occurs at the end only, that is, \<open>u\<close> is the text
  in front of the first occurrence of \<open>w\<close>.
\<close>

definition endsAtFirst :: "string \<Rightarrow> string \<Rightarrow> bool" where
  "endsAtFirst w u = (\<forall>i<length u. \<not> prefix w (drop i (u @ w)))"

text \<open>The head of a module block: \<^verbatim>\<open>module\<close>, space, a mangled name (\<^verbatim>\<open>_Z\<close>, digits, word
  characters), optional space and an opening parenthesis, followed by the text \<open>t\<close>.\<close>

definition moduleHead :: "string \<Rightarrow> string \<Rightarrow> string \<Rightarrow> bool" where
  "moduleHead s name t \<longleftrightarrow>
     (\<exists>sp ds ws sp'.
        s = ''module'' @ sp @ name @ sp' @ ''('' @ t
        \<and> name = ''_Z'' @ ds @ ws
        \<and> sp \<noteq> [] \<and> list_all isSpace sp
        \<and> ds \<noteq> [] \<and> list_all isDigit ds
        \<and> ws \<noteq> [] \<and> list_all isWord ws
        \<and> list_all isSpace sp')"

text \<open>A text starts a module block if it is the head of a module block, any text, \<^verbatim>\<open>);\<close>,
  any text, and \<^verbatim>\<open>endmodule\<close>, followed by anything.\<close>

definition startsBlock :: "string \<Rightarrow> bool" where
  "startsBlock s \<longleftrightarrow>
     (\<exists>name pl body rest. moduleHead s name (pl @ '');'' @ body @ ''endmodule'' @ rest))"

text \<open>The module block at the start of a text: its port list ends at the first \<^verbatim>\<open>);\<close>, its
  body is the text from there to the first \<^verbatim>\<open>endmodule\<close>, and \<open>rest\<close> is the text after the
  block.\<close>

definition blockAt :: "string \<Rightarrow> string \<Rightarrow> string \<Rightarrow> string \<Rightarrow> bool" where
  "blockAt s name body rest \<longleftrightarrow>
     (\<exists>pl. moduleHead s name (pl @ '');'' @ body @ ''endmodule'' @ rest)
           \<and> endsAtFirst '');'' pl \<and> endsAtFirst ''endmodule'' body)"

text \<open>The port declaration at the start of a text: \<^verbatim>\<open>input\<close> or \<^verbatim>\<open>output\<close>, space, an
  optional range \<^verbatim>\<open>[msb:lsb]\<close> followed by space, a name, optional space and a semicolon.
  The port has the declared name, direction and range, and the range \<^verbatim>\<open>0:0\<close> if none is
  declared.\<close>

definition declAt :: "string \<Rightarrow> port \<Rightarrow> string \<Rightarrow> bool" where
  "declAt s p rest \<longleftrightarrow>
     (\<exists>kw sp rng nm sp'.
        s = kw @ sp @ rng @ nm @ sp' @ '';'' @ rest
        \<and> (kw = ''input'' \<and> port_direction p = Input
             \<or> kw = ''output'' \<and> port_direction p = Output)
        \<and> sp \<noteq> [] \<and> list_all isSpace sp
        \<and> nm \<noteq> [] \<and> list_all isWord nm \<and> port_name p = nm
        \<and> list_all isSpace sp'
        \<and> (rng = [] \<and> port_msb p = 0 \<and> port_lsb p = 0
             \<or> (\<exists>m l sp2. rng = ''['' @ m @ '':'' @ l @ '']'' @ sp2
                    \<and> m \<noteq> [] \<and> list_all isDigit m \<and> port_msb p = parseInt m
                    \<and> l \<noteq> [] \<and> list_all isDigit l \<and> port_lsb p = parseInt l
                    \<and> sp2 \<noteq> [] \<and> list_all isSpace sp2)))"

definition startsDecl :: "string \<Rightarrow> bool" where
  "startsDecl s \<longleftrightarrow> (\<exists>p rest. declAt s p rest)"

text \<open>The ports that a module body declares: the declarations of the body from left to
  right, each looked for after the end of the one before.\<close>

inductive declarations :: "string \<Rightarrow> port list \<Rightarrow> bool" where
  noDecl: "\<forall>j\<le>length body. \<not> startsDecl (drop j body) \<Longrightarrow> declarations body []"
| decl: "body = pre @ s \<Longrightarrow> \<forall>j<length pre. \<not> startsDecl (drop j body) \<Longrightarrow>
         declAt s p rest \<Longrightarrow> declarations rest ps \<Longrightarrow> declarations body (p # ps)"

text \<open>
  What port extraction is to return for a target name and a text. The module blocks are
  looked for from left to right, each after the end of the one before; the first block
  whose name contains the target name, both in lower case, gives the result: its name
  and the ports that its body declares. Without such a block there is no result.
\<close>

inductive extraction :: "string \<Rightarrow> string \<Rightarrow> (string \<times> port list) option \<Rightarrow> bool"
  for target :: string where
  notFound: "\<forall>j\<le>length hdl. \<not> startsBlock (drop j hdl) \<Longrightarrow> extraction target hdl None"
| found: "hdl = pre @ s \<Longrightarrow> \<forall>j<length pre. \<not> startsBlock (drop j hdl) \<Longrightarrow>
          blockAt s name body rest \<Longrightarrow>
          includesStr (toLowerCase name) (toLowerCase target) \<Longrightarrow>
          declarations body ports \<Longrightarrow> extraction target hdl (Some (name, ports))"
| skip: "hdl = pre @ s \<Longrightarrow> \<forall>j<length pre. \<not> startsBlock (drop j hdl) \<Longrightarrow>
         blockAt s name body rest \<Longrightarrow>
         \<not> includesStr (toLowerCase name) (toLowerCase target) \<Longrightarrow>
         extraction target rest r \<Longrightarrow> extraction target hdl r"

section \<open>Example projects and designs\<close>

definition exampleEnv :: env where
  "exampleEnv =
     \<lparr>getDirOfFile = (\<lambda>p. ''/proj/''),
      resolveResource = (\<lambda>r. ''/res/'' @ r),
      FDP3P7 = \<lparr>pins_input = [''P1'', ''P2''], pins_output = [''Q1'', ''Q2'']\<rparr>\<rparr>"

definition exampleSettings :: projectSettings where
  "exampleSettings =
     \<lparr>bambu = Some \<lparr>topFunction = Some ''add''\<rparr>,
      place_mode = ''Bounding Box'',
      route_mode = ''Breath First''\<rparr>"

definition exampleSource :: projectFile where
  "exampleSource = \<lparr>file_name = ''add.cpp'', file_path = ''/proj/add.cpp'', file_type = ''cpp''\<rparr>"

definition exampleConstraint :: projectFile where
  "exampleConstraint =
     \<lparr>file_name = ''pins.xml'', file_path = ''/proj/pins.xml'', file_type = ''constraint''\<rparr>"

text \<open>A project with a source file only, and one that also declares a constraint file.\<close>

definition exampleProject :: projectInfo where
  "exampleProject =
     \<lparr>project_name = ''demo'', project_path = ''/proj/demo.json'',
      file_lists = [exampleSource], settings = exampleSettings\<rparr>"

definition exampleProjectC :: projectInfo where
  "exampleProjectC =
     \<lparr>project_name = ''demo'', project_path = ''/proj/demo.json'',
      file_lists = [exampleSource, exampleConstraint], settings = exampleSettings\<rparr>"

definition emptyWorld :: world where
  "emptyWorld = \<lparr>files = Map.empty, trace = []\<rparr>"

definition wideDevice :: devicePins where
  "wideDevice =
     \<lparr>pins_input = [''I0'', ''I1'', ''I2'', ''I3'', ''I4'', ''I5'', ''I6'', ''I7'', ''I8'', ''I9''],
      pins_output = [''O0'', ''O1'']\<rparr>"

definition wideEnv :: env where
  "wideEnv = exampleEnv\<lparr>FDP3P7 := wideDevice\<rparr>"

text \<open>Two modules; only the second contains the top function's name \<^verbatim>\<open>add\<close>.\<close>

definition exampleVerilog :: string where
  "exampleVerilog =
     ''module _Z3subii(x); input [7:0] x; endmodule module _Z3ADDii (clock,a,b,c,sum); input clock; input a; input b; input c; output [1:0] sum; endmodule''"

definition examplePorts :: "port list" where
  "examplePorts =
     [\<lparr>port_name = ''clock'', port_direction = Input, port_msb = 0, port_lsb = 0\<rparr>,
      \<lparr>port_name = ''a'', port_direction = Input, port_msb = 0, port_lsb = 0\<rparr>,
      \<lparr>port_name = ''b'', port_direction = Input, port_msb = 0, port_lsb = 0\<rparr>,
      \<lparr>port_name = ''c'', port_direction = Input, port_msb = 0, port_lsb = 0\<rparr>,
      \<lparr>port_name = ''sum'', port_direction = Output, port_msb = 1, port_lsb = 0\<rparr>]"

definition exampleAssignments :: "assignment list" where
  "exampleAssignments =
     [\<lparr>asg_name = ''a'', asg_pin = ''I0'', asg_direction = Input\<rparr>,
      \<lparr>asg_name = ''b'', asg_pin = ''I1'', asg_direction = Input\<rparr>,
      \<lparr>asg_name = ''c'', asg_pin = ''I2'', asg_direction = Input\<rparr>,
      \<lparr>asg_name = ''sum[0]'', asg_pin = ''O0'', asg_direction = Output\<rparr>,
      \<lparr>asg_name = ''sum[1]'', asg_pin = ''O1'', asg_direction = Output\<rparr>]"

definition exampleWorld :: world where
  "exampleWorld = \<lparr>files = [''/proj/add.v'' \<mapsto> exampleVerilog], trace = []\<rparr>"

definition clockBus :: port where
  "clockBus = \<lparr>port_name = ''clock'', port_direction = Output, port_msb = 3, port_lsb = 0\<rparr>"

definition busPort :: port where
  "busPort = \<lparr>port_name = ''port'', port_direction = Input, port_msb = 7, port_lsb = 0\<rparr>"

definition donePort :: port where
  "donePort = \<lparr>port_name = ''done'', port_direction = Output, port_msb = 0, port_lsb = 0\<rparr>"

definition busExampleAssignments :: "assignment list" where
  "busExampleAssignments =
     [\<lparr>asg_name = ''port[0]'', asg_pin = ''I0'', asg_direction = Input\<rparr>,
      \<lparr>asg_name = ''port[1]'', asg_pin = ''I1'', asg_direction = Input\<rparr>,
      \<lparr>asg_name = ''port[2]'', asg_pin = ''I2'', asg_direction = Input\<rparr>,
      \<lparr>asg_name = ''port[3]'', asg_pin = ''I3'', asg_direction = Input\<rparr>,
      \<lparr>asg_name = ''port[4]'', asg_pin = ''I4'', asg_direction = Input\<rparr>,
      \<lparr>asg_name = ''port[5]'', asg_pin = ''I5'', asg_direction = Input\<rparr>,
      \<lparr>asg_name = ''port[6]'', asg_pin = ''I6'', asg_direction = Input\<rparr>,
      \<lparr>asg_name = ''port[7]'', asg_pin = ''I7'', asg_direction = Input\<rparr>]"

definition generatedWorld :: world where
  "generatedWorld =
     \<lparr>files = [''/proj/add.v'' \<mapsto> exampleVerilog,
               ''/proj/demo_bambu_cons.xml'' \<mapsto> xmlContent ''_Z3ADDii'' exampleAssignments],
      trace = [Exists ''/proj/demo_bambu_cons.xml'', Exists ''/proj/add.v'',
               ReadTextFile ''/proj/add.v'',
               WriteTextFile ''/proj/demo_bambu_cons.xml''
                 (xmlContent ''_Z3ADDii'' exampleAssignments)]\<rparr>"

text \<open>A project whose only constraint file has the empty path.\<close>

definition emptyPathConstraint :: projectFile where
  "emptyPathConstraint = \<lparr>file_name = ''pins.xml'', file_path = [], file_type = ''constraint''\<rparr>"

definition exampleProjectE :: projectInfo where
  "exampleProjectE =
     \<lparr>project_name = ''demo'', project_path = ''/proj/demo.json'',
      file_lists = [emptyPathConstraint], settings = exampleSettings\<rparr>"

text \<open>A module named after a C function: its name is not mangled.\<close>

definition unmangledVerilog :: string where
  "unmangledVerilog = ''module main(a); input a; endmodule''"

section \<open>Mode flags\<close>

lemma place_result_cases:
  "fst (runBambuPlaceFlowCommand e project w) = Some c \<Longrightarrow>
     \<exists>cst. c = placeCommand e project cst"
  by (auto simp: runBambuPlaceFlowCommand_def split: if_splits option.splits prod.splits)

lemma route_result_cases:
  "fst (runBambuRouteFlowCommand e project w) = Some c \<Longrightarrow>
     \<exists>cst. c = routeCommand e project cst"
  by (auto simp: runBambuRouteFlowCommand_def Let_def existsFile_def
           split: if_splits option.splits prod.splits bool.splits)

text \<open>
  Claim C9. Whenever the placement builder produces a command, its mode argument (the
  one after the constraint path) is \<^verbatim>\<open>-b\<close> if the placement mode of the settings is
  "Bounding Box" and \<^verbatim>\<open>-t\<close> for every other value; whenever the routing builder produces a
  command, its mode argument (the one after the output name) is \<^verbatim>\<open>-d\<close> for "Direct
  Search", \<^verbatim>\<open>-b\<close> for "Breath First" and \<^verbatim>\<open>-t\<close> for every other value.
\<close>

theorem mode_flags:
  "(fst (runBambuPlaceFlowCommand e project w) = Some c \<longrightarrow>
      args c ! 10 = (if place_mode (settings project) = ''Bounding Box'' then ''-b'' else ''-t''))
   \<and> (fst (runBambuRouteFlowCommand e project w) = Some c' \<longrightarrow>
      args c' ! 6 = (if route_mode (settings project) = ''Direct Search'' then ''-d''
                     else if route_mode (settings project) = ''Breath First'' then ''-b''
                     else ''-t''))"
proof (intro conjI impI)
  assume "fst (runBambuPlaceFlowCommand e project w) = Some c"
  then obtain cst where "c = placeCommand e project cst"
    using place_result_cases by blast
  then show "args c ! 10 = (if place_mode (settings project) = ''Bounding Box'' then ''-b'' else ''-t'')"
    by (simp add: placeCommand_def getPlaceMode_def)
next
  assume "fst (runBambuRouteFlowCommand e project w) = Some c'"
  then obtain cst where "c' = routeCommand e project cst"
    using route_result_cases by blast
  then show "args c' ! 6 = (if route_mode (settings project) = ''Direct Search'' then ''-d''
                     else if route_mode (settings project) = ''Breath First'' then ''-b''
                     else ''-t'')"
    by (simp add: routeCommand_def getRouteMode_def)
qed

lemma example_declared: "declaredConstraint exampleProjectC = Some ''/proj/pins.xml''"
  by (simp add: declaredConstraint_def exampleProjectC_def exampleSource_def exampleConstraint_def)

lemma example_place_declared:
  "runBambuPlaceFlowCommand exampleEnv exampleProjectC emptyWorld =
     (Some (placeCommand exampleEnv exampleProjectC ''/proj/pins.xml''), emptyWorld)"
  by (simp add: runBambuPlaceFlowCommand_def example_declared)

lemma example_route_declared:
  "runBambuRouteFlowCommand exampleEnv exampleProjectC emptyWorld =
     (Some (routeCommand exampleEnv exampleProjectC ''/proj/pins.xml''), emptyWorld)"
  by (simp add: runBambuRouteFlowCommand_def example_declared)

text \<open>The example project with its declared constraint file: "Bounding Box" gives \<^verbatim>\<open>-b\<close>, "Breath First" gives \<^verbatim>\<open>-b\<close>.\<close>

theorem mode_flags_witness:
  "fst (runBambuPlaceFlowCommand exampleEnv exampleProjectC emptyWorld) =
     Some (placeCommand exampleEnv exampleProjectC ''/proj/pins.xml'')
   \<and> args (placeCommand exampleEnv exampleProjectC ''/proj/pins.xml'') ! 10 = ''-b''
   \<and> fst (runBambuRouteFlowCommand exampleEnv exampleProjectC emptyWorld) =
     Some (routeCommand exampleEnv exampleProjectC ''/proj/pins.xml'')
   \<and> args (routeCommand exampleEnv exampleProjectC ''/proj/pins.xml'') ! 6 = ''-b''"
proof -
  have p: "fst (runBambuPlaceFlowCommand exampleEnv exampleProjectC emptyWorld) =
             Some (placeCommand exampleEnv exampleProjectC ''/proj/pins.xml'')"
    by (simp add: example_place_declared)
  have r: "fst (runBambuRouteFlowCommand exampleEnv exampleProjectC emptyWorld) =
             Some (routeCommand exampleEnv exampleProjectC ''/proj/pins.xml'')"
    by (simp add: example_route_declared)
  have m: "place_mode (settings exampleProjectC) = ''Bounding Box''
           \<and> route_mode (settings exampleProjectC) = ''Breath First''"
    by (simp add: exampleProjectC_def exampleSettings_def)
  from mode_flags [of exampleEnv exampleProjectC emptyWorld
        "placeCommand exampleEnv exampleProjectC ''/proj/pins.xml''"
        "routeCommand exampleEnv exampleProjectC ''/proj/pins.xml''"] p r m
  show ?thesis by simp
qed

section \<open>Properties of the pin allocation\<close>

lemma assignPin_eq:
  "assignPin dp d idx =
     (if idxOf d idx \<ge> length (pinsOf dp d) then (None, idx)
      else (Some (pinsOf dp d ! idxOf d idx), advance d 1 idx))"
  by (cases d; cases idx) (simp_all add: idxOf_def pinsOf_def advance_def)

lemma advance_advance: "advance d m (advance d n idx) = advance d (n + m) idx"
  by (cases d) (simp_all add: advance_def)

lemma advance_0: "advance d 0 idx = idx"
  by (cases d) (simp_all add: advance_def)

lemma idxOf_advance: "idxOf d (advance d n idx) = idxOf d idx + n"
  by (cases d) (simp_all add: advance_def idxOf_def)

lemma busAssignments_step:
  "i \<le> high \<Longrightarrow>
   busAssignments dp p start i high =
     \<lparr>asg_name = port_name p @ ''['' @ showNat i @ '']'',
      asg_pin = pinsOf dp (port_direction p) ! start,
      asg_direction = port_direction p\<rparr> # busAssignments dp p (Suc start) (Suc i) high"
proof -
  assume le: "i \<le> high"
  have shift: "start + (k - i) = Suc start + (k - Suc i)" if "k \<in> set [Suc i..<Suc high]" for k
    using that by auto
  have "map (\<lambda>k. \<lparr>asg_name = port_name p @ ''['' @ showNat k @ '']'',
               asg_pin = pinsOf dp (port_direction p) ! (start + (k - i)),
               asg_direction = port_direction p\<rparr>) [Suc i..<Suc high]
        = busAssignments dp p (Suc start) (Suc i) high"
    unfolding busAssignments_def by (rule map_cong [OF refl]) (simp only: shift)
  moreover have "[i..<Suc high] = i # [Suc i..<Suc high]"
    using le by (simp add: upt_conv_Cons del: upt_Suc)
  ultimately show ?thesis
    by (simp add: busAssignments_def del: upt_Suc)
qed

lemma busAssignments_empty: "high < i \<Longrightarrow> busAssignments dp p start i high = []"
  by (simp add: busAssignments_def)

lemma busLoop_Inr:
  "busLoop dp p i high (idx, acc) = Inr st' \<Longrightarrow>
     st' = (advance (port_direction p) (Suc high - i) idx,
            acc @ busAssignments dp p (idxOf (port_direction p) idx) i high)
     \<and> (\<forall>k < Suc high - i.
          idxOf (port_direction p) idx + k < length (pinsOf dp (port_direction p))
          \<and> pinsOf dp (port_direction p) ! (idxOf (port_direction p) idx + k) \<noteq> [])"
proof (induction dp p i high "(idx, acc)" arbitrary: idx acc rule: busLoop.induct)
  case (1 dp port i high idx acc)
  let ?d = "port_direction port"
  show ?case
  proof (cases "i \<le> high")
    case False
    with "1.prems" show ?thesis
      by (simp add: busLoop.simps busAssignments_empty advance_0)
  next
    case True
    from "1.prems" True
    have lt: "idxOf ?d idx < length (pinsOf dp ?d)"
      and ne: "pinsOf dp ?d ! idxOf ?d idx \<noteq> []"
      and rec: "busLoop dp port (Suc i) high
                  (advance ?d 1 idx,
                   acc @ [\<lparr>asg_name = port_name port @ ''['' @ showNat i @ '']'',
                           asg_pin = pinsOf dp ?d ! idxOf ?d idx,
                           asg_direction = ?d\<rparr>]) = Inr st'"
      by (auto simp: busLoop.simps [of dp port i high] assignPin_eq split: if_splits)
    have ap: "assignPin dp ?d idx = (Some (pinsOf dp ?d ! idxOf ?d idx), advance ?d 1 idx)"
      using lt by (simp add: assignPin_eq)
    from "1.hyps" [OF True ap [symmetric] refl ne rec]
    have ih: "st' = (advance ?d (Suc high - Suc i) (advance ?d 1 idx),
                (acc @ [\<lparr>asg_name = port_name port @ ''['' @ showNat i @ '']'',
                           asg_pin = pinsOf dp ?d ! idxOf ?d idx,
                           asg_direction = ?d\<rparr>]) @
                 busAssignments dp port (idxOf ?d (advance ?d 1 idx)) (Suc i) high)"
      and ihk: "\<forall>k < Suc high - Suc i.
          idxOf ?d (advance ?d 1 idx) + k < length (pinsOf dp ?d)
          \<and> pinsOf dp ?d ! (idxOf ?d (advance ?d 1 idx) + k) \<noteq> []"
      by simp_all
    have a: "st' = (advance ?d (Suc high - i) idx, acc @ busAssignments dp port (idxOf ?d idx) i high)"
      using ih True by (simp add: advance_advance idxOf_advance busAssignments_step Suc_diff_le)
    have b: "idxOf ?d idx + k < length (pinsOf dp ?d)
          \<and> pinsOf dp ?d ! (idxOf ?d idx + k) \<noteq> []" if "k < Suc high - i" for k
    proof (cases k)
      case 0
      with lt ne show ?thesis by simp
    next
      case (Suc k')
      with that have "k' < Suc high - Suc i" by simp
      with ihk Suc show ?thesis by (simp add: idxOf_advance)
    qed
    from a b show ?thesis by blast
  qed
qed

lemma idxOf_advance_other: "d' \<noteq> d \<Longrightarrow> idxOf d' (advance d n idx) = idxOf d' idx"
  by (cases d; cases d') (simp_all add: advance_def idxOf_def)

lemma consumed_push:
  assumes "consumed dp idx acc" and "idxOf d idx < length (pinsOf dp d)"
  shows "consumed dp (advance d 1 idx)
           (acc @ [\<lparr>asg_name = n, asg_pin = pinsOf dp d ! idxOf d idx, asg_direction = d\<rparr>])"
  unfolding consumed_def
proof (intro allI)
  fix d'
  let ?a = "\<lparr>asg_name = n, asg_pin = pinsOf dp d ! idxOf d idx, asg_direction = d\<rparr>"
  from assms(1) have c: "map asg_pin (filter (\<lambda>a. asg_direction a = d') acc) = take (idxOf d' idx) (pinsOf dp d')"
    and l: "idxOf d' idx \<le> length (pinsOf dp d')"
    by (simp_all add: consumed_def)
  show "map asg_pin (filter (\<lambda>a. asg_direction a = d') (acc @ [?a])) =
          take (idxOf d' (advance d 1 idx)) (pinsOf dp d')
        \<and> idxOf d' (advance d 1 idx) \<le> length (pinsOf dp d')"
  proof (cases "d' = d")
    case True
    with c l assms(2) show ?thesis
      by (simp add: idxOf_advance take_Suc_conv_app_nth)
  next
    case False
    with c l show ?thesis
      by (simp add: idxOf_advance_other)
  qed
qed

lemma consumed_bus:
  "consumed dp idx acc \<Longrightarrow>
   \<forall>k < Suc high - i. idxOf (port_direction p) idx + k < length (pinsOf dp (port_direction p)) \<Longrightarrow>
   consumed dp (advance (port_direction p) (Suc high - i) idx)
     (acc @ busAssignments dp p (idxOf (port_direction p) idx) i high)"
proof (induction "Suc high - i" arbitrary: i idx acc)
  case 0
  then show ?case by (simp add: advance_0 busAssignments_empty)
next
  case (Suc n)
  let ?d = "port_direction p"
  from Suc.hyps(2) have le: "i \<le> high" and n: "n = Suc high - Suc i" by simp_all
  from Suc.prems(2) Suc.hyps(2) have lt: "idxOf ?d idx < length (pinsOf dp ?d)"
    by (metis add.right_neutral zero_less_Suc)
  have rest: "\<forall>k<Suc high - Suc i. idxOf ?d (advance ?d 1 idx) + k < length (pinsOf dp ?d)"
  proof (intro allI impI)
    fix k assume "k < Suc high - Suc i"
    then have "Suc k < Suc high - i" by simp
    with Suc.prems(2) have "idxOf ?d idx + Suc k < length (pinsOf dp ?d)" by blast
    then show "idxOf ?d (advance ?d 1 idx) + k < length (pinsOf dp ?d)"
      by (simp add: idxOf_advance)
  qed
  from Suc.hyps(1) [OF n consumed_push [OF Suc.prems(1) lt] rest]
  show ?case
    using le by (simp add: busAssignments_step advance_advance idxOf_advance Suc_diff_le)
qed

lemma portsLoop_Inr:
  "portsLoop dp ports (idx, acc) = Inr (idx', acc') \<Longrightarrow> consumed dp idx acc \<Longrightarrow>
     consumed dp idx' acc'
     \<and> (\<forall>d. idxOf d idx' = idxOf d idx + pinsNeeded d ports)
     \<and> (\<exists>r. acc' = acc @ r \<and> (\<forall>a\<in>set r. asg_pin a \<noteq> [] \<and> asg_name a \<noteq> ''clock''))"
proof (induction ports arbitrary: idx acc)
  case Nil
  then show ?case by (simp add: pinsNeeded_def)
next
  case (Cons p ports)
  let ?d = "port_direction p"
  show ?case
  proof (cases "port_name p = ''clock''")
    case True
    with Cons.prems have "portsLoop dp ports (idx, acc) = Inr (idx', acc')" by simp
    from Cons.IH [OF this Cons.prems(2)] True show ?thesis
      by (simp add: pinsNeeded_def)
  next
    case notclock: False
    show ?thesis
    proof (cases "port_msb p \<noteq> port_lsb p")
      case True
      let ?lo = "min (port_msb p) (port_lsb p)" and ?hi = "max (port_msb p) (port_lsb p)"
      from Cons.prems(1) notclock True obtain st1 where
        b: "busLoop dp p ?lo ?hi (idx, acc) = Inr st1" and
        r: "portsLoop dp ports st1 = Inr (idx', acc')"
        by (auto split: sum.splits)
      from busLoop_Inr [OF b] have
        st1: "st1 = (advance ?d (Suc ?hi - ?lo) idx, acc @ busAssignments dp p (idxOf ?d idx) ?lo ?hi)"
        and av: "\<forall>k<Suc ?hi - ?lo. idxOf ?d idx + k < length (pinsOf dp ?d)
                  \<and> pinsOf dp ?d ! (idxOf ?d idx + k) \<noteq> []"
        by simp_all
      from av have av': "\<forall>k<Suc ?hi - ?lo. idxOf ?d idx + k < length (pinsOf dp ?d)" by blast
      have c1: "consumed dp (advance ?d (Suc ?hi - ?lo) idx)
                  (acc @ busAssignments dp p (idxOf ?d idx) ?lo ?hi)"
        by (rule consumed_bus [OF Cons.prems(2) av'])
      from Cons.IH [OF r [unfolded st1] c1] obtain r' where
        i1: "consumed dp idx' acc'" and
        i2: "\<forall>d. idxOf d idx' = idxOf d (advance ?d (Suc ?hi - ?lo) idx) + pinsNeeded d ports" and
        i3: "acc' = (acc @ busAssignments dp p (idxOf ?d idx) ?lo ?hi) @ r'" and
        i4: "\<forall>a\<in>set r'. asg_pin a \<noteq> [] \<and> asg_name a \<noteq> ''clock''"
        by blast
      have w: "portWidth p = Suc ?hi - ?lo"
        using True by (simp add: portWidth_def)
      have idx: "idxOf d idx' = idxOf d idx + pinsNeeded d (p # ports)" for d
      proof (cases "d = ?d")
        case True
        with i2 notclock w show ?thesis
          by (simp add: pinsNeeded_def idxOf_advance)
      next
        case False
        with i2 notclock show ?thesis
          by (auto simp add: pinsNeeded_def idxOf_advance_other)
      qed
      have names: "\<forall>a\<in>set (busAssignments dp p (idxOf ?d idx) ?lo ?hi).
                     asg_pin a \<noteq> [] \<and> asg_name a \<noteq> ''clock''"
      proof
        fix a assume "a \<in> set (busAssignments dp p (idxOf ?d idx) ?lo ?hi)"
        then obtain k where k: "?lo \<le> k" "k \<le> ?hi" and
          a: "a = \<lparr>asg_name = port_name p @ ''['' @ showNat k @ '']'',
                   asg_pin = pinsOf dp ?d ! (idxOf ?d idx + (k - ?lo)),
                   asg_direction = ?d\<rparr>"
          by (auto simp: busAssignments_def)
        from k have "k - ?lo < Suc ?hi - ?lo" by auto
        with av have "pinsOf dp ?d ! (idxOf ?d idx + (k - ?lo)) \<noteq> []" by blast
        moreover have "port_name p @ ''['' @ showNat k @ '']'' \<noteq> ''clock''"
        proof
          assume "port_name p @ ''['' @ showNat k @ '']'' = ''clock''"
          then have "last (port_name p @ ''['' @ showNat k @ '']'') = last ''clock''" by simp
          then show False by simp
        qed
        ultimately show "asg_pin a \<noteq> [] \<and> asg_name a \<noteq> ''clock''"
          using a by simp
      qed
      from i1 idx i3 i4 names show ?thesis by auto
    next
      case False
      from Cons.prems(1) notclock False have
        lt: "idxOf ?d idx < length (pinsOf dp ?d)" and
        ne: "pinsOf dp ?d ! idxOf ?d idx \<noteq> []" and
        r: "portsLoop dp ports
              (advance ?d 1 idx,
               acc @ [\<lparr>asg_name = port_name p, asg_pin = pinsOf dp ?d ! idxOf ?d idx,
                       asg_direction = ?d\<rparr>]) = Inr (idx', acc')"
        by (auto simp: assignPin_eq split: if_splits)
      from Cons.IH [OF r consumed_push [OF Cons.prems(2) lt]] obtain r' where
        i1: "consumed dp idx' acc'" and
        i2: "\<forall>d. idxOf d idx' = idxOf d (advance ?d 1 idx) + pinsNeeded d ports" and
        i3: "acc' = (acc @ [\<lparr>asg_name = port_name p, asg_pin = pinsOf dp ?d ! idxOf ?d idx,
                       asg_direction = ?d\<rparr>]) @ r'" and
        i4: "\<forall>a\<in>set r'. asg_pin a \<noteq> [] \<and> asg_name a \<noteq> ''clock''"
        by blast
      have w: "portWidth p = 1"
        using False by (simp add: portWidth_def)
      have idx: "idxOf d idx' = idxOf d idx + pinsNeeded d (p # ports)" for d
      proof (cases "d = ?d")
        case True
        with i2 notclock w show ?thesis
          by (simp add: pinsNeeded_def idxOf_advance)
      next
        case False
        with i2 notclock show ?thesis
          by (auto simp add: pinsNeeded_def idxOf_advance_other)
      qed
      from i1 idx i3 i4 ne notclock show ?thesis by auto
    qed
  qed
qed

lemma consumed_init: "consumed dp (0, 0) []"
  by (auto simp: consumed_def idxOf_def split: direction.splits)

lemma portsLoop_append:
  "portsLoop dp (xs @ ys) st =
     (case portsLoop dp xs st of Inl d \<Rightarrow> Inl d | Inr st' \<Rightarrow> portsLoop dp ys st')"
proof (induction xs arbitrary: st)
  case Nil
  show ?case by simp
next
  case (Cons p xs)
  obtain idx acc where st: "st = (idx, acc)" by (cases st)
  show ?case
    unfolding st using Cons.IH
    by (auto split: sum.splits prod.splits option.splits)
qed

lemma portsLoop_clock:
  "portsLoop dp ports st = portsLoop dp (filter (\<lambda>p. port_name p \<noteq> ''clock'') ports) st"
proof (induction ports arbitrary: st)
  case Nil
  show ?case by simp
next
  case (Cons p ports)
  obtain idx acc where st: "st = (idx, acc)" by (cases st)
  show ?case
    unfolding st using Cons.IH
    by (auto split: sum.splits prod.splits option.splits)
qed

lemma allocatePins_Inr:
  assumes "allocatePins dp ports = Inr asgs"
  shows "\<exists>idx. portsLoop dp ports ((0, 0), []) = Inr (idx, asgs) \<and> consumed dp idx asgs
           \<and> (\<forall>d. idxOf d idx = pinsNeeded d ports)
           \<and> (\<forall>a\<in>set asgs. asg_pin a \<noteq> [] \<and> asg_name a \<noteq> ''clock'')"
proof -
  from assms obtain idx where p: "portsLoop dp ports ((0, 0), []) = Inr (idx, asgs)"
    by (auto simp: allocatePins_def split: sum.splits)
  from portsLoop_Inr [OF p consumed_init] show ?thesis
    using p by (auto simp: idxOf_def split: direction.splits)
qed

text \<open>
  Claim C5. A port named \<^verbatim>\<open>clock\<close> leaves the counters and the assignments as they are,
  whatever its direction and bit range; the allocation of a port list is the allocation
  of the list without its \<^verbatim>\<open>clock\<close> ports; and no assignment of a successful
  allocation is named \<^verbatim>\<open>clock\<close>.
\<close>

theorem clock_skipped:
  "(port_name p = ''clock'' \<longrightarrow> portsLoop dp (p # ports) st = portsLoop dp ports st)
   \<and> portsLoop dp ports st = portsLoop dp (filter (\<lambda>p. port_name p \<noteq> ''clock'') ports) st
   \<and> allocatePins dp ports = allocatePins dp (filter (\<lambda>p. port_name p \<noteq> ''clock'') ports)
   \<and> (allocatePins dp ports = Inr asgs \<longrightarrow> ''clock'' \<notin> set (map asg_name asgs))"
proof (intro conjI impI)
  assume "port_name p = ''clock''"
  then show "portsLoop dp (p # ports) st = portsLoop dp ports st"
    by (cases st) simp
next
  show "portsLoop dp ports st = portsLoop dp (filter (\<lambda>p. port_name p \<noteq> ''clock'') ports) st"
    by (rule portsLoop_clock)
next
  show "allocatePins dp ports = allocatePins dp (filter (\<lambda>p. port_name p \<noteq> ''clock'') ports)"
    unfolding allocatePins_def by (subst portsLoop_clock) (rule refl)
next
  assume "allocatePins dp ports = Inr asgs"
  from allocatePins_Inr [OF this] show "''clock'' \<notin> set (map asg_name asgs)"
    by auto
qed

lemma distinct_map_split:
  "distinct (map f (filter P xs)) \<Longrightarrow> distinct (map f (filter (\<lambda>x. \<not> P x) xs)) \<Longrightarrow>
   (\<forall>x\<in>set xs. \<forall>y\<in>set xs. P x \<longrightarrow> \<not> P y \<longrightarrow> f x \<noteq> f y) \<Longrightarrow>
   distinct (map f xs)"
proof (induction xs)
  case Nil
  show ?case by simp
next
  case (Cons x xs)
  then have d: "distinct (map f xs)" by (auto split: if_splits)
  have "f x \<notin> f ` set xs"
  proof
    assume "f x \<in> f ` set xs"
    then obtain y where y: "y \<in> set xs" "f y = f x" by auto
    show False
    proof (cases "P x")
      case px: True
      show False
      proof (cases "P y")
        case True
        with px y Cons.prems(1) show False by (auto simp: image_iff)
      next
        case False
        with px y Cons.prems(3) show False by (metis list.set_intros(1) list.set_intros(2))
      qed
    next
      case npx: False
      show False
      proof (cases "P y")
        case True
        with npx y Cons.prems(3) show False by (metis list.set_intros(1) list.set_intros(2))
      next
        case False
        with npx y Cons.prems(2) show False by (auto simp: image_iff)
      qed
    qed
  qed
  with d show ?case by simp
qed

lemma consumed_member:
  assumes "consumed dp idx asgs" and "a \<in> set asgs"
  shows "asg_pin a \<in> set (take (idxOf (asg_direction a) idx) (pinsOf dp (asg_direction a)))"
proof -
  from assms(2) have "asg_pin a \<in> set (map asg_pin (filter (\<lambda>b. asg_direction b = asg_direction a) asgs))"
    by auto
  with assms(1) show ?thesis by (simp add: consumed_def)
qed

text \<open>
  Claim C4. A pin catalog is two disjoint sequences of pin identifiers, one of the input
  pins and one of the output pins; the claim is about catalogs whose identifiers are unique
  within each sequence. The three hypotheses say exactly this: no identifier occurs twice
  in the input sequence, none occurs twice in the output sequence, and none occurs in both.
  Then no pin identifier occurs in two assignments of the produced list, and the pin of
  every assignment is in the sequence of the assignment's direction; the pins of one
  direction are, in order, the first pins of its sequence.
\<close>

theorem pins_injective:
  assumes "distinct (pins_input dp)" and "distinct (pins_output dp)"
    and "set (pins_input dp) \<inter> set (pins_output dp) = {}"
    and "allocatePins dp ports = Inr asgs"
  shows "distinct (map asg_pin asgs)
         \<and> (\<forall>a\<in>set asgs. asg_pin a \<in> set (pinsOf dp (asg_direction a)))
         \<and> (\<forall>d. map asg_pin (filter (\<lambda>a. asg_direction a = d) asgs) =
                  take (pinsNeeded d ports) (pinsOf dp d))"
proof -
  from allocatePins_Inr [OF assms(4)] obtain idx where
    c: "consumed dp idx asgs" and n: "\<forall>d. idxOf d idx = pinsNeeded d ports"
    by blast
  have mem: "asg_pin a \<in> set (pinsOf dp (asg_direction a))" if "a \<in> set asgs" for a
    using consumed_member [OF c that] by (auto dest: in_set_takeD)
  have per: "map asg_pin (filter (\<lambda>a. asg_direction a = d) asgs) = take (pinsNeeded d ports) (pinsOf dp d)" for d
    using c n by (simp add: consumed_def)
  have dI: "distinct (map asg_pin (filter (\<lambda>a. asg_direction a = Input) asgs))"
    using per [of Input] assms(1) by (simp add: pinsOf_def)
  have nI: "(\<lambda>a. \<not> asg_direction a = Input) = (\<lambda>a. asg_direction a = Output)"
    by (rule ext) (metis direction.exhaust direction.distinct(1))
  have dO: "distinct (map asg_pin (filter (\<lambda>a. \<not> asg_direction a = Input) asgs))"
    unfolding nI using per [of Output] assms(2) by (simp add: pinsOf_def)
  have cross: "\<forall>x\<in>set asgs. \<forall>y\<in>set asgs.
                 asg_direction x = Input \<longrightarrow> \<not> asg_direction y = Input \<longrightarrow> asg_pin x \<noteq> asg_pin y"
  proof (intro ballI impI)
    fix x y assume x: "x \<in> set asgs" and y: "y \<in> set asgs"
      and dx: "asg_direction x = Input" and dy: "\<not> asg_direction y = Input"
    from dy have dy': "asg_direction y = Output" by (cases "asg_direction y") simp_all
    from mem [OF x] dx have "asg_pin x \<in> set (pins_input dp)" by (simp add: pinsOf_def)
    moreover from mem [OF y] dy' have "asg_pin y \<in> set (pins_output dp)" by (simp add: pinsOf_def)
    ultimately show "asg_pin x \<noteq> asg_pin y" using assms(3) by auto
  qed
  from distinct_map_split [OF dI dO cross] mem per show ?thesis by blast
qed

lemma nth_run:
  assumes "start + n \<le> length xs"
  shows "map (\<lambda>k. xs ! (start + (k - lo))) [lo..<lo + n] = take n (drop start xs)"
proof (rule nth_equalityI)
  show "length (map (\<lambda>k. xs ! (start + (k - lo))) [lo..<lo + n]) = length (take n (drop start xs))"
    using assms by simp
next
  fix i assume "i < length (map (\<lambda>k. xs ! (start + (k - lo))) [lo..<lo + n])"
  then have i: "i < n" by simp
  then show "map (\<lambda>k. xs ! (start + (k - lo))) [lo..<lo + n] ! i = take n (drop start xs) ! i"
    using assms by simp
qed

text \<open>
  Claim C3, amended. In a successful allocation, a bus port (\<open>msb \<noteq> lsb\<close>) that is not
  named \<^verbatim>\<open>clock\<close> contributes, after the assignments of the ports before it, exactly
  \<open>|msb - lsb| + 1\<close> assignments, named \<open>name[i]\<close> for \<open>i\<close> from \<open>min msb lsb\<close> up to
  \<open>max msb lsb\<close>, whose pins are the next pins of the sequence of the port's direction.
\<close>

theorem bus_expansion:
  assumes "port_msb p \<noteq> port_lsb p" and "port_name p \<noteq> ''clock''"
    and "allocatePins dp (pre @ p # post) = Inr asgs"
  shows "\<exists>before after.
           allocatePins dp pre = Inr before
           \<and> asgs = before @
               busAssignments dp p (pinsNeeded (port_direction p) pre)
                 (min (port_msb p) (port_lsb p)) (max (port_msb p) (port_lsb p)) @ after
           \<and> length (busAssignments dp p (pinsNeeded (port_direction p) pre)
                 (min (port_msb p) (port_lsb p)) (max (port_msb p) (port_lsb p)))
               = (if port_lsb p \<le> port_msb p then port_msb p - port_lsb p
                  else port_lsb p - port_msb p) + 1
           \<and> map asg_name (busAssignments dp p (pinsNeeded (port_direction p) pre)
                 (min (port_msb p) (port_lsb p)) (max (port_msb p) (port_lsb p)))
               = map (\<lambda>i. port_name p @ ''['' @ showNat i @ '']'')
                   [min (port_msb p) (port_lsb p) ..< Suc (max (port_msb p) (port_lsb p))]
           \<and> map asg_pin (busAssignments dp p (pinsNeeded (port_direction p) pre)
                 (min (port_msb p) (port_lsb p)) (max (port_msb p) (port_lsb p)))
               = take (portWidth p) (drop (pinsNeeded (port_direction p) pre)
                   (pinsOf dp (port_direction p)))
           \<and> pinsNeeded (port_direction p) pre + portWidth p \<le> length (pinsOf dp (port_direction p))"
proof -
  let ?d = "port_direction p"
  let ?lo = "min (port_msb p) (port_lsb p)" and ?hi = "max (port_msb p) (port_lsb p)"
  from assms(3) obtain idx where
    all: "portsLoop dp (pre @ p # post) ((0, 0), []) = Inr (idx, asgs)"
    by (auto simp: allocatePins_def split: sum.splits)
  from all obtain idx1 before where
    pre: "portsLoop dp pre ((0, 0), []) = Inr (idx1, before)" and
    rest: "portsLoop dp (p # post) (idx1, before) = Inr (idx, asgs)"
    by (auto simp: portsLoop_append split: sum.splits)
  from portsLoop_Inr [OF pre consumed_init] have
    c1: "consumed dp idx1 before" and n1: "idxOf ?d idx1 = pinsNeeded ?d pre"
    by (auto simp: idxOf_def split: direction.splits)
  from rest assms(1,2) obtain st2 where
    b: "busLoop dp p ?lo ?hi (idx1, before) = Inr st2" and
    r: "portsLoop dp post st2 = Inr (idx, asgs)"
    by (auto split: sum.splits)
  from busLoop_Inr [OF b] have
    st2: "st2 = (advance ?d (Suc ?hi - ?lo) idx1, before @ busAssignments dp p (idxOf ?d idx1) ?lo ?hi)"
    and av: "\<forall>k<Suc ?hi - ?lo. idxOf ?d idx1 + k < length (pinsOf dp ?d)"
    by simp_all
  have c2: "consumed dp (advance ?d (Suc ?hi - ?lo) idx1)
              (before @ busAssignments dp p (idxOf ?d idx1) ?lo ?hi)"
    by (rule consumed_bus [OF c1 av])
  from portsLoop_Inr [OF r [unfolded st2] c2] obtain after where
    asgs: "asgs = (before @ busAssignments dp p (idxOf ?d idx1) ?lo ?hi) @ after"
    by blast
  have w: "portWidth p = Suc ?hi - ?lo"
    using assms(1) by (simp add: portWidth_def)
  have wpos: "0 < Suc ?hi - ?lo" by simp
  from av have fit: "pinsNeeded ?d pre + portWidth p \<le> length (pinsOf dp ?d)"
    unfolding w n1 [symmetric]
    by (metis wpos Suc_leI Suc_pred add_Suc_right lessI)
  have hi: "Suc ?hi = ?lo + portWidth p"
    unfolding w by simp
  have pins: "map asg_pin (busAssignments dp p (pinsNeeded ?d pre) ?lo ?hi)
                = take (portWidth p) (drop (pinsNeeded ?d pre) (pinsOf dp ?d))"
    unfolding busAssignments_def hi using nth_run [OF fit, of ?lo]
    by (simp add: comp_def)
  have len: "length (busAssignments dp p (pinsNeeded ?d pre) ?lo ?hi)
               = (if port_lsb p \<le> port_msb p then port_msb p - port_lsb p
                  else port_lsb p - port_msb p) + 1"
    by (simp add: busAssignments_def max_def min_def)
  have names: "map asg_name (busAssignments dp p (pinsNeeded ?d pre) ?lo ?hi)
               = map (\<lambda>i. port_name p @ ''['' @ showNat i @ '']'') [?lo ..< Suc ?hi]"
    by (simp add: busAssignments_def comp_def del: upt_Suc)
  have "allocatePins dp pre = Inr before"
    using pre by (simp add: allocatePins_def)
  with asgs n1 len names pins fit show ?thesis
    by (intro exI [of _ before] exI [of _ after]) simp
qed

text \<open>
  Enough pins: if every direction has the pins that its ports need and no pin of the
  catalog has an empty name, the allocation produces assignments.
\<close>

lemma busLoop_succeeds:
  assumes "idxOf (port_direction p) idx + (Suc high - i) \<le> length (pinsOf dp (port_direction p))"
    and "[] \<notin> set (pinsOf dp (port_direction p))"
  shows "\<exists>st. busLoop dp p i high (idx, acc) = Inr st"
  using assms
proof (induction dp p i high "(idx, acc)" arbitrary: idx acc rule: busLoop.induct)
  case (1 dp port i high idx acc)
  let ?d = "port_direction port"
  show ?case
  proof (cases "i \<le> high")
    case False
    then show ?thesis by (simp add: busLoop.simps)
  next
    case True
    with "1.prems"(1) have lt: "idxOf ?d idx < length (pinsOf dp ?d)" by simp
    have ap: "assignPin dp ?d idx = (Some (pinsOf dp ?d ! idxOf ?d idx), advance ?d 1 idx)"
      using lt by (simp add: assignPin_eq)
    from lt have "pinsOf dp ?d ! idxOf ?d idx \<in> set (pinsOf dp ?d)" by (rule nth_mem)
    with "1.prems"(2) have ne: "pinsOf dp ?d ! idxOf ?d idx \<noteq> []" by auto
    have le: "idxOf ?d (advance ?d 1 idx) + (Suc high - Suc i) \<le> length (pinsOf dp ?d)"
      using "1.prems"(1) True by (simp add: idxOf_advance)
    from "1.hyps" [OF True ap [symmetric] refl ne le "1.prems"(2)] obtain st where
      "busLoop dp port (Suc i) high
         (advance ?d 1 idx,
          acc @ [\<lparr>asg_name = port_name port @ ''['' @ showNat i @ '']'',
                  asg_pin = pinsOf dp ?d ! idxOf ?d idx,
                  asg_direction = ?d\<rparr>]) = Inr st"
      by blast
    with True ap ne show ?thesis by (simp add: busLoop.simps [of dp port i high])
  qed
qed

lemma pinsNeeded_Cons:
  "pinsNeeded d (p # ports) =
     (if port_name p \<noteq> ''clock'' \<and> port_direction p = d then portWidth p else 0)
     + pinsNeeded d ports"
  by (simp add: pinsNeeded_def)

lemma portsLoop_succeeds:
  assumes "\<forall>d. idxOf d idx + pinsNeeded d ports \<le> length (pinsOf dp d)"
    and "\<forall>d. [] \<notin> set (pinsOf dp d)"
  shows "\<exists>st. portsLoop dp ports (idx, acc) = Inr st"
  using assms(1)
proof (induction ports arbitrary: idx acc)
  case Nil
  show ?case by simp
next
  case (Cons p ports)
  let ?d = "port_direction p"
  have step: "\<forall>d. idxOf d (advance ?d (portWidth p) idx) + pinsNeeded d ports \<le> length (pinsOf dp d)"
    if "port_name p \<noteq> ''clock''"
  proof
    fix d
    from Cons.prems have "idxOf d idx + pinsNeeded d (p # ports) \<le> length (pinsOf dp d)" ..
    with that show "idxOf d (advance ?d (portWidth p) idx) + pinsNeeded d ports \<le> length (pinsOf dp d)"
      by (cases "d = ?d") (simp_all add: pinsNeeded_Cons idxOf_advance idxOf_advance_other)
  qed
  show ?case
  proof (cases "port_name p = ''clock''")
    case True
    with Cons.prems have "\<forall>d. idxOf d idx + pinsNeeded d ports \<le> length (pinsOf dp d)"
      by (simp add: pinsNeeded_Cons)
    from Cons.IH [OF this, of acc] True show ?thesis by simp
  next
    case False
    from Cons.prems have "idxOf ?d idx + pinsNeeded ?d (p # ports) \<le> length (pinsOf dp ?d)" ..
    with False have w: "idxOf ?d idx + portWidth p \<le> length (pinsOf dp ?d)"
      by (simp add: pinsNeeded_Cons)
    from assms(2) have ne: "[] \<notin> set (pinsOf dp ?d)" ..
    show ?thesis
    proof (cases "port_msb p \<noteq> port_lsb p")
      case True
      let ?i = "min (port_msb p) (port_lsb p)"
      let ?h = "max (port_msb p) (port_lsb p)"
      from True have pw: "portWidth p = Suc ?h - ?i"
        by (simp add: portWidth_def)
      from w have "idxOf ?d idx + (Suc ?h - ?i) \<le> length (pinsOf dp ?d)"
        by (simp add: pw)
      from busLoop_succeeds [OF this ne, of acc] obtain st where
        b: "busLoop dp p ?i ?h (idx, acc) = Inr st" by blast
      from busLoop_Inr [OF b] have st: "st = (advance ?d (portWidth p) idx,
            acc @ busAssignments dp p (idxOf ?d idx) ?i ?h)"
        by (simp add: pw)
      from Cons.IH [OF step [OF False], of "acc @ busAssignments dp p (idxOf ?d idx) ?i ?h"]
      show ?thesis
        using False True b st by simp
    next
      case scalar: False
      then have pw: "portWidth p = 1" by (simp add: portWidth_def)
      from w have lt: "idxOf ?d idx < length (pinsOf dp ?d)" by (simp add: pw)
      then have "pinsOf dp ?d ! idxOf ?d idx \<in> set (pinsOf dp ?d)" by (rule nth_mem)
      with ne have n: "pinsOf dp ?d ! idxOf ?d idx \<noteq> []" by auto
      from Cons.IH [OF step [OF False],
          of "acc @ [\<lparr>asg_name = port_name p, asg_pin = pinsOf dp ?d ! idxOf ?d idx,
                       asg_direction = ?d\<rparr>]"]
      show ?thesis
        using False scalar lt n by (simp add: assignPin_eq pw)
    qed
  qed
qed

lemma allocation_succeeds:
  assumes "\<forall>d. pinsNeeded d ports \<le> length (pinsOf dp d)"
    and "\<forall>d. [] \<notin> set (pinsOf dp d)"
  shows "\<exists>asgs. allocatePins dp ports = Inr asgs"
proof -
  from assms(1) have "\<forall>d. idxOf d (0, 0) + pinsNeeded d ports \<le> length (pinsOf dp d)"
    by (simp add: idxOf_def split: direction.splits)
  from portsLoop_succeeds [OF this assms(2), of "[]"] obtain st where
    "portsLoop dp ports ((0, 0), []) = Inr st" by blast
  then show ?thesis
    by (cases st) (simp add: allocatePins_def)
qed

section \<open>Properties of constraint generation\<close>

lemma generate_exists:
  "files w (constraintFilePath e project) = Some c \<Longrightarrow>
   generateBambuConstraintFile e project w =
     (Some (constraintFilePath e project), emit (Exists (constraintFilePath e project)) w)"
  by (simp add: generateBambuConstraintFile_def existsFile_def)

lemma generate_alloc:
  assumes "files w (constraintFilePath e project) = None"
    and "find isCSource (file_lists project) = Some cppFile"
    and "files w (verilogPathOf e project cppFile) = Some content"
    and "moduleLoop (topFunctionOf project) content = Some (moduleName, ports)"
  shows "generateBambuConstraintFile e project w =
     (case allocatePins (FDP3P7 e) ports of
        Inl d \<Rightarrow>
          (None, w\<lparr>trace := trace w @
                     [Exists (constraintFilePath e project),
                      Exists (verilogPathOf e project cppFile),
                      ReadTextFile (verilogPathOf e project cppFile),
                      FailedNotification ''Constraint Generation''
                        (''Not enough '' @ directionStr d @ '' pins for the design.'')]\<rparr>)
      | Inr asgs \<Rightarrow>
          (Some (constraintFilePath e project),
           w\<lparr>files := (files w)(constraintFilePath e project \<mapsto> xmlContent moduleName asgs),
             trace := trace w @
                     [Exists (constraintFilePath e project),
                      Exists (verilogPathOf e project cppFile),
                      ReadTextFile (verilogPathOf e project cppFile),
                      WriteTextFile (constraintFilePath e project) (xmlContent moduleName asgs)]\<rparr>))"
  using assms
  by (simp add: generateBambuConstraintFile_def existsFile_def verilogPathOf_def emit_def Let_def
        parseHLSVerilogPorts_def readTextFile_def showFailedNotification_def writeTextFile_def
        split: sum.splits)

lemma generate_None_files:
  "fst (generateBambuConstraintFile e project w) = None \<Longrightarrow>
   files (snd (generateBambuConstraintFile e project w)) = files w"
  by (auto simp add: generateBambuConstraintFile_def existsFile_def emit_def Let_def
        parseHLSVerilogPorts_def readTextFile_def showFailedNotification_def writeTextFile_def
        split: sum.splits option.splits bool.splits prod.splits if_splits)

lemma generate_Some:
  "generateBambuConstraintFile e project w = (Some r, w') \<Longrightarrow>
   r = constraintFilePath e project \<and> files w' (constraintFilePath e project) \<noteq> None"
  by (auto simp add: generateBambuConstraintFile_def existsFile_def emit_def Let_def
        parseHLSVerilogPorts_def readTextFile_def showFailedNotification_def writeTextFile_def
        split: sum.splits option.splits bool.splits prod.splits if_splits)

lemma exhausted_fails:
  assumes "length (pinsOf dp d) < pinsNeeded d ports"
  shows "\<exists>d'. allocatePins dp ports = Inl d'"
proof (cases "allocatePins dp ports")
  case (Inl d')
  then show ?thesis by blast
next
  case (Inr asgs)
  from allocatePins_Inr [OF Inr] obtain idx where
    c: "consumed dp idx asgs" and n: "\<forall>d. idxOf d idx = pinsNeeded d ports"
    by blast
  from c have "idxOf d idx \<le> length (pinsOf dp d)" by (simp add: consumed_def)
  with n assms show ?thesis by simp
qed

text \<open>
  Claim C2. If the ports of one direction need more pins than the sequence of that
  direction has, the allocation fails, and a failed allocation carries no assignment.
  When constraint generation reaches an allocation that fails, it returns nothing, shows
  the notification "Not enough <direction> pins for the design." and leaves every file as
  it was. Whenever constraint generation returns nothing, no file has been created or
  changed.
\<close>

theorem exhaustion_fails:
  "(length (pinsOf (FDP3P7 e) d) < pinsNeeded d ports \<longrightarrow>
      (\<exists>d'. allocatePins (FDP3P7 e) ports = Inl d'))
   \<and> (files w (constraintFilePath e project) = None
      \<and> find isCSource (file_lists project) = Some cppFile
      \<and> files w (verilogPathOf e project cppFile) = Some content
      \<and> moduleLoop (topFunctionOf project) content = Some (moduleName, ports)
      \<and> allocatePins (FDP3P7 e) ports = Inl d' \<longrightarrow>
      generateBambuConstraintFile e project w =
        (None, w\<lparr>trace := trace w @
                     [Exists (constraintFilePath e project),
                      Exists (verilogPathOf e project cppFile),
                      ReadTextFile (verilogPathOf e project cppFile),
                      FailedNotification ''Constraint Generation''
                        (''Not enough '' @ directionStr d' @ '' pins for the design.'')]\<rparr>))
   \<and> (fst (generateBambuConstraintFile e project w) = None \<longrightarrow>
      files (snd (generateBambuConstraintFile e project w)) = files w)"
proof (intro conjI impI)
  assume "length (pinsOf (FDP3P7 e) d) < pinsNeeded d ports"
  then show "\<exists>d'. allocatePins (FDP3P7 e) ports = Inl d'"
    by (rule exhausted_fails)
next
  assume a: "files w (constraintFilePath e project) = None
      \<and> find isCSource (file_lists project) = Some cppFile
      \<and> files w (verilogPathOf e project cppFile) = Some content
      \<and> moduleLoop (topFunctionOf project) content = Some (moduleName, ports)
      \<and> allocatePins (FDP3P7 e) ports = Inl d'"
  then have h1: "files w (constraintFilePath e project) = None"
    and h2: "find isCSource (file_lists project) = Some cppFile"
    and h3: "files w (verilogPathOf e project cppFile) = Some content"
    and h4: "moduleLoop (topFunctionOf project) content = Some (moduleName, ports)"
    and h5: "allocatePins (FDP3P7 e) ports = Inl d'"
    by blast+
  note generate_alloc [OF h1 h2 h3 h4]
  with h5 show "generateBambuConstraintFile e project w =
        (None, w\<lparr>trace := trace w @
                     [Exists (constraintFilePath e project),
                      Exists (verilogPathOf e project cppFile),
                      ReadTextFile (verilogPathOf e project cppFile),
                      FailedNotification ''Constraint Generation''
                        (''Not enough '' @ directionStr d' @ '' pins for the design.'')]\<rparr>)"
    by simp
next
  assume "fst (generateBambuConstraintFile e project w) = None"
  then show "files (snd (generateBambuConstraintFile e project w)) = files w"
    by (rule generate_None_files)
qed

text \<open>
  Claim C6. If a file exists at the constraint path, constraint generation returns that
  path and does nothing but the existence check: no read, no write, no notification.
  After a run that returned a path, a second run returns the same path and again does
  nothing but the existence check. The content of the file is never looked at.
\<close>

theorem cache_by_existence:
  "(files w (constraintFilePath e project) \<noteq> None \<longrightarrow>
      generateBambuConstraintFile e project w =
        (Some (constraintFilePath e project), emit (Exists (constraintFilePath e project)) w))
   \<and> (generateBambuConstraintFile e project w = (Some r, w') \<longrightarrow>
      generateBambuConstraintFile e project w' = (Some r, emit (Exists r) w'))"
proof (intro conjI impI)
  assume "files w (constraintFilePath e project) \<noteq> None"
  then show "generateBambuConstraintFile e project w =
        (Some (constraintFilePath e project), emit (Exists (constraintFilePath e project)) w)"
    using generate_exists by fastforce
next
  assume "generateBambuConstraintFile e project w = (Some r, w')"
  from generate_Some [OF this] show "generateBambuConstraintFile e project w' = (Some r, emit (Exists r) w')"
    using generate_exists by fastforce
qed

section \<open>The claims on the example design\<close>

lemma example_moduleLoop: "moduleLoop ''add'' exampleVerilog = Some (''_Z3ADDii'', examplePorts)"
  by code_simp

lemma example_topFunction: "topFunctionOf exampleProject = ''add''"
  by (simp add: topFunctionOf_def exampleProject_def exampleSettings_def)

lemma example_baseName: "baseNameOf ''add.cpp'' = ''add''"
  by code_simp

lemma example_verilogPath:
  "verilogPathOf exampleEnv exampleProject exampleSource = ''/proj/add.v''"
  "verilogPathOf wideEnv exampleProject exampleSource = ''/proj/add.v''"
  by (simp_all add: verilogPathOf_def exampleEnv_def wideEnv_def exampleSource_def example_baseName)

lemma example_constraintPath:
  "constraintFilePath exampleEnv exampleProject = ''/proj/demo_bambu_cons.xml''"
  "constraintFilePath wideEnv exampleProject = ''/proj/demo_bambu_cons.xml''"
  by (simp_all add: constraintFilePath_def constraintFileName_def exampleEnv_def wideEnv_def
        exampleProject_def)

lemma example_find: "find isCSource (file_lists exampleProject) = Some exampleSource"
  by (simp add: exampleProject_def exampleSource_def isCSource_def)

lemma example_alloc_fails: "allocatePins (FDP3P7 exampleEnv) examplePorts = Inl Input"
  by code_simp

lemma example_alloc: "allocatePins wideDevice examplePorts = Inr exampleAssignments"
  by code_simp

lemma example_needed: "pinsNeeded Input examplePorts = 3"
  by code_simp

text \<open>Three scalar inputs on a device with two input pins: generation fails and writes nothing.\<close>

theorem exhaustion_fails_witness:
  "length (pinsOf (FDP3P7 exampleEnv) Input) < pinsNeeded Input examplePorts
   \<and> allocatePins (FDP3P7 exampleEnv) examplePorts = Inl Input
   \<and> files exampleWorld (constraintFilePath exampleEnv exampleProject) = None
   \<and> find isCSource (file_lists exampleProject) = Some exampleSource
   \<and> files exampleWorld (verilogPathOf exampleEnv exampleProject exampleSource) = Some exampleVerilog
   \<and> moduleLoop (topFunctionOf exampleProject) exampleVerilog = Some (''_Z3ADDii'', examplePorts)
   \<and> generateBambuConstraintFile exampleEnv exampleProject exampleWorld =
       (None, exampleWorld\<lparr>trace :=
                [Exists ''/proj/demo_bambu_cons.xml'', Exists ''/proj/add.v'',
                 ReadTextFile ''/proj/add.v'',
                 FailedNotification ''Constraint Generation''
                   ''Not enough input pins for the design.'']\<rparr>)
   \<and> files (snd (generateBambuConstraintFile exampleEnv exampleProject exampleWorld)) =
       files exampleWorld"
proof -
  have h0: "length (pinsOf (FDP3P7 exampleEnv) Input) < pinsNeeded Input examplePorts"
    by (simp add: example_needed pinsOf_def exampleEnv_def)
  have h1: "files exampleWorld (constraintFilePath exampleEnv exampleProject) = None"
    by (simp add: example_constraintPath exampleWorld_def)
  have h3: "files exampleWorld (verilogPathOf exampleEnv exampleProject exampleSource) = Some exampleVerilog"
    by (simp add: example_verilogPath exampleWorld_def)
  have h4: "moduleLoop (topFunctionOf exampleProject) exampleVerilog = Some (''_Z3ADDii'', examplePorts)"
    by (simp add: example_topFunction example_moduleLoop)
  have t: "trace exampleWorld = []"
    by (simp add: exampleWorld_def)
  from exhaustion_fails [of exampleEnv Input examplePorts exampleWorld exampleProject
      exampleSource exampleVerilog "''_Z3ADDii''" Input]
    h0 h1 example_find h3 h4 example_alloc_fails t
  show ?thesis
    by (simp add: example_constraintPath example_verilogPath directionStr_def)
qed

lemma example_bus_alloc:
  "allocatePins wideDevice ([clockBus] @ busPort # [donePort]) =
     Inr (busExampleAssignments @ [\<lparr>asg_name = ''done'', asg_pin = ''O0'', asg_direction = Output\<rparr>])"
  by code_simp

lemma example_bus_assignments:
  "busAssignments wideDevice busPort (pinsNeeded (port_direction busPort) [clockBus])
     (min (port_msb busPort) (port_lsb busPort)) (max (port_msb busPort) (port_lsb busPort))
   = busExampleAssignments"
  by code_simp

text \<open>An input bus \<^verbatim>\<open>[7:0]\<close> named \<^verbatim>\<open>port\<close> between a clock port and an output: the eight assignments \<^verbatim>\<open>port[0]\<close> to \<^verbatim>\<open>port[7]\<close> on the first eight input pins.\<close>

theorem bus_expansion_witness:
  "port_msb busPort \<noteq> port_lsb busPort \<and> port_name busPort \<noteq> ''clock''
   \<and> allocatePins wideDevice ([clockBus] @ busPort # [donePort]) =
       Inr (busExampleAssignments @ [\<lparr>asg_name = ''done'', asg_pin = ''O0'', asg_direction = Output\<rparr>])
   \<and> busAssignments wideDevice busPort (pinsNeeded (port_direction busPort) [clockBus])
         (min (port_msb busPort) (port_lsb busPort)) (max (port_msb busPort) (port_lsb busPort))
       = busExampleAssignments
   \<and> (\<exists>before after.
         allocatePins wideDevice [clockBus] = Inr before
         \<and> busExampleAssignments @ [\<lparr>asg_name = ''done'', asg_pin = ''O0'', asg_direction = Output\<rparr>]
             = before @
               busAssignments wideDevice busPort (pinsNeeded (port_direction busPort) [clockBus])
                 (min (port_msb busPort) (port_lsb busPort))
                 (max (port_msb busPort) (port_lsb busPort)) @ after)
   \<and> pinsNeeded (port_direction busPort) [clockBus] + portWidth busPort
       \<le> length (pinsOf wideDevice (port_direction busPort))"
proof -
  have h1: "port_msb busPort \<noteq> port_lsb busPort" by (simp add: busPort_def)
  have h2: "port_name busPort \<noteq> ''clock''" by (simp add: busPort_def)
  from bus_expansion [OF h1 h2 example_bus_alloc] h1 h2 example_bus_alloc example_bus_assignments
  show ?thesis by blast
qed

text \<open>A bus port named \<^verbatim>\<open>clock\<close> gets no assignment, and a bus of eight bits on a device with two input pins makes the allocation fail.\<close>

theorem bus_expansion_counterexample:
  "port_msb clockBus \<noteq> port_lsb clockBus
   \<and> allocatePins wideDevice [clockBus] = Inr []
   \<and> port_msb busPort \<noteq> port_lsb busPort
   \<and> allocatePins (FDP3P7 exampleEnv) [busPort] = Inl Input"
  by code_simp

text \<open>The example design on the wide device.\<close>

theorem pins_injective_witness:
  "distinct (pins_input wideDevice) \<and> distinct (pins_output wideDevice)
   \<and> set (pins_input wideDevice) \<inter> set (pins_output wideDevice) = {}
   \<and> allocatePins wideDevice examplePorts = Inr exampleAssignments
   \<and> distinct (map asg_pin exampleAssignments)
   \<and> map asg_pin (filter (\<lambda>a. asg_direction a = Input) exampleAssignments) =
       take (pinsNeeded Input examplePorts) (pinsOf wideDevice Input)"
proof -
  have h1: "distinct (pins_input wideDevice)" by (simp add: wideDevice_def)
  have h2: "distinct (pins_output wideDevice)" by (simp add: wideDevice_def)
  have h3: "set (pins_input wideDevice) \<inter> set (pins_output wideDevice) = {}"
    by (simp add: wideDevice_def)
  from pins_injective [OF h1 h2 h3 example_alloc] h1 h2 h3 example_alloc
  show ?thesis by blast
qed

lemma example_clock_alloc: "allocatePins wideDevice (clockBus # examplePorts) = Inr exampleAssignments"
  by code_simp

text \<open>An output bus named \<^verbatim>\<open>clock\<close> in front of the example ports changes nothing.\<close>

theorem clock_skipped_witness:
  "port_name clockBus = ''clock''
   \<and> portsLoop wideDevice (clockBus # examplePorts) ((0, 0), []) =
       portsLoop wideDevice examplePorts ((0, 0), [])
   \<and> allocatePins wideDevice (clockBus # examplePorts) = Inr exampleAssignments
   \<and> ''clock'' \<notin> set (map asg_name exampleAssignments)"
proof -
  have h: "port_name clockBus = ''clock''" by (simp add: clockBus_def)
  from clock_skipped [of clockBus wideDevice examplePorts "((0, 0), [])" exampleAssignments]
    clock_skipped [of clockBus wideDevice "clockBus # examplePorts" "((0, 0), [])" exampleAssignments]
    h example_clock_alloc
  show ?thesis by blast
qed

lemma example_generate:
  "generateBambuConstraintFile wideEnv exampleProject exampleWorld =
     (Some ''/proj/demo_bambu_cons.xml'', generatedWorld)"
proof -
  have h1: "files exampleWorld (constraintFilePath wideEnv exampleProject) = None"
    by (simp add: example_constraintPath exampleWorld_def)
  have h3: "files exampleWorld (verilogPathOf wideEnv exampleProject exampleSource) = Some exampleVerilog"
    by (simp add: example_verilogPath exampleWorld_def)
  have h4: "moduleLoop (topFunctionOf exampleProject) exampleVerilog = Some (''_Z3ADDii'', examplePorts)"
    by (simp add: example_topFunction example_moduleLoop)
  have d: "FDP3P7 wideEnv = wideDevice" by (simp add: wideEnv_def)
  show ?thesis
    unfolding generate_alloc [OF h1 example_find h3 h4] d example_alloc
    by (simp add: example_constraintPath example_verilogPath exampleWorld_def generatedWorld_def)
qed

text \<open>A first run that writes the constraint file, and a second run on the world it leaves.\<close>

theorem cache_by_existence_witness:
  "generateBambuConstraintFile wideEnv exampleProject exampleWorld =
     (Some ''/proj/demo_bambu_cons.xml'', generatedWorld)
   \<and> files generatedWorld (constraintFilePath wideEnv exampleProject) \<noteq> None
   \<and> generateBambuConstraintFile wideEnv exampleProject generatedWorld =
     (Some ''/proj/demo_bambu_cons.xml'', emit (Exists ''/proj/demo_bambu_cons.xml'') generatedWorld)"
proof -
  have h: "files generatedWorld (constraintFilePath wideEnv exampleProject) \<noteq> None"
    by (simp add: example_constraintPath generatedWorld_def)
  from cache_by_existence [of generatedWorld wideEnv exampleProject]
    cache_by_existence [of exampleWorld wideEnv exampleProject "''/proj/demo_bambu_cons.xml''" generatedWorld]
    h example_generate
  show ?thesis by (simp add: example_constraintPath)
qed

section \<open>Constraints in placement and routing\<close>

text \<open>Both commands take the constraint file after \<^verbatim>\<open>-c\<close>.\<close>

lemma placeCommand_constraint:
  "args (placeCommand e project cst) ! 8 = ''-c'' \<and> args (placeCommand e project cst) ! 9 = cst"
  by (simp add: placeCommand_def Let_def)

lemma routeCommand_constraint:
  "args (routeCommand e project cst) ! 7 = ''-c'' \<and> args (routeCommand e project cst) ! 8 = cst"
  by (simp add: routeCommand_def Let_def)

lemma declaredConstraint_find:
  "declaredConstraint project = map_option file_path (firstConstraint project)"
proof -
  have "(case filter P xs of [] \<Rightarrow> None | x # _ \<Rightarrow> Some (f x)) = map_option f (find P xs)"
    for P :: "projectFile \<Rightarrow> bool" and xs and f :: "projectFile \<Rightarrow> string"
    by (induction xs) auto
  then show ?thesis by (simp add: declaredConstraint_def firstConstraint_def)
qed

lemma constraintFilePath_nonempty: "constraintFilePath e project \<noteq> []"
  by (simp add: constraintFilePath_def constraintFileName_def)

lemma generate_result_truthy:
  "generateBambuConstraintFile e project w = (g, w1) \<Longrightarrow> truthy g \<longleftrightarrow> g \<noteq> None"
  using generate_Some [of e project w _ w1] constraintFilePath_nonempty [of e project]
  by (cases g) auto

text \<open>
  Claim C7, amended. If the first file tagged \<^verbatim>\<open>constraint\<close> has a non-empty path, the
  placement builder uses that path and does nothing else: no existence check, no read, no
  write, no notification. If the project has no file tagged \<^verbatim>\<open>constraint\<close>, or the first
  one has the empty path, constraint generation runs; the path it returns is used, and
  if it returns nothing the builder shows the "Failed to generate constraint file"
  notification and produces no command.
\<close>

theorem place_constraint:
  "(firstConstraint project = Some file \<and> file_path file \<noteq> [] \<longrightarrow>
      runBambuPlaceFlowCommand e project w = (Some (placeCommand e project (file_path file)), w))
   \<and> ((firstConstraint project = None \<or> (firstConstraint project = Some file \<and> file_path file = [])) \<longrightarrow>
      runBambuPlaceFlowCommand e project w =
        (case generateBambuConstraintFile e project w of
           (Some generated, w1) \<Rightarrow> (Some (placeCommand e project generated), w1)
         | (None, w1) \<Rightarrow> (None, placeFailure w1)))"
proof (intro conjI impI)
  assume "firstConstraint project = Some file \<and> file_path file \<noteq> []"
  then show "runBambuPlaceFlowCommand e project w = (Some (placeCommand e project (file_path file)), w)"
    by (simp add: runBambuPlaceFlowCommand_def declaredConstraint_find)
next
  assume "firstConstraint project = None \<or> (firstConstraint project = Some file \<and> file_path file = [])"
  then have f: "\<not> truthy (declaredConstraint project)"
    by (auto simp: declaredConstraint_find)
  obtain g w1 where g: "generateBambuConstraintFile e project w = (g, w1)"
    by (cases "generateBambuConstraintFile e project w")
  from generate_result_truthy [OF g] f g
  show "runBambuPlaceFlowCommand e project w =
        (case generateBambuConstraintFile e project w of
           (Some generated, w1) \<Rightarrow> (Some (placeCommand e project generated), w1)
         | (None, w1) \<Rightarrow> (None, placeFailure w1))"
    by (cases g) (simp_all add: runBambuPlaceFlowCommand_def placeFailure_def)
qed

lemma route_files:
  "files (snd (runBambuRouteFlowCommand e project w)) = files w"
  by (auto simp: runBambuRouteFlowCommand_def Let_def existsFile_def emit_def
        showFailedNotification_def split: option.splits bool.splits)

lemma route_trace:
  "\<exists>evs. snd (runBambuRouteFlowCommand e project w) = w\<lparr>trace := trace w @ evs\<rparr>
         \<and> set evs \<subseteq> {Exists (constraintFilePath e project),
                        FailedNotification ''Route'' ''Constraint file not found.''}"
proof (cases "truthy (declaredConstraint project)")
  case True
  then have "snd (runBambuRouteFlowCommand e project w) = w\<lparr>trace := trace w @ []\<rparr>"
    by (auto simp: runBambuRouteFlowCommand_def split: option.splits)
  then show ?thesis by (intro exI [of _ "[]"]) simp
next
  case False
  show ?thesis
  proof (cases "files w (constraintFilePath e project) = None")
    case True
    with False have "snd (runBambuRouteFlowCommand e project w) =
        w\<lparr>trace := trace w @ [Exists (constraintFilePath e project),
                                 FailedNotification ''Route'' ''Constraint file not found.'']\<rparr>"
      by (simp add: runBambuRouteFlowCommand_def Let_def existsFile_def emit_def
            showFailedNotification_def constraintFilePath_def constraintFileName_def)
    then show ?thesis
      by (intro exI [of _ "[Exists (constraintFilePath e project),
                            FailedNotification ''Route'' ''Constraint file not found.'']"]) simp
  next
    case present: False
    with False have "snd (runBambuRouteFlowCommand e project w) =
        w\<lparr>trace := trace w @ [Exists (constraintFilePath e project)]\<rparr>"
      by (auto simp add: runBambuRouteFlowCommand_def Let_def existsFile_def emit_def
            constraintFilePath_def constraintFileName_def)
    then show ?thesis
      by (intro exI [of _ "[Exists (constraintFilePath e project)]"]) simp
  qed
qed

text \<open>
  Claim C10. The routing builder never creates or changes a file, and all it ever does
  is one existence check of \<open><project>_bambu_cons.xml\<close> and one notification. If the project has no
  file tagged \<^verbatim>\<open>constraint\<close>, all it does is check whether \<open><project>_bambu_cons.xml\<close>
  exists in the project directory: if so the command uses that path; if not it shows the
  "Constraint file not found." notification and produces no command.
\<close>

theorem route_never_generates:
  "files (snd (runBambuRouteFlowCommand e project w)) = files w
   \<and> (\<exists>evs. snd (runBambuRouteFlowCommand e project w) = w\<lparr>trace := trace w @ evs\<rparr>
         \<and> set evs \<subseteq> {Exists (constraintFilePath e project),
                        FailedNotification ''Route'' ''Constraint file not found.''})
   \<and> (firstConstraint project = None \<longrightarrow>
      runBambuRouteFlowCommand e project w =
        (if files w (constraintFilePath e project) \<noteq> None
         then (Some (routeCommand e project (constraintFilePath e project)),
               emit (Exists (constraintFilePath e project)) w)
         else (None, routeFailure (emit (Exists (constraintFilePath e project)) w))))"
proof (intro conjI impI)
  show "files (snd (runBambuRouteFlowCommand e project w)) = files w"
    by (rule route_files)
next
  show "\<exists>evs. snd (runBambuRouteFlowCommand e project w) = w\<lparr>trace := trace w @ evs\<rparr>
         \<and> set evs \<subseteq> {Exists (constraintFilePath e project),
                        FailedNotification ''Route'' ''Constraint file not found.''}"
    by (rule route_trace)
next
  assume "firstConstraint project = None"
  then have "declaredConstraint project = None"
    by (simp add: declaredConstraint_find)
  then show "runBambuRouteFlowCommand e project w =
        (if files w (constraintFilePath e project) \<noteq> None
         then (Some (routeCommand e project (constraintFilePath e project)),
               emit (Exists (constraintFilePath e project)) w)
         else (None, routeFailure (emit (Exists (constraintFilePath e project)) w)))"
    by (simp add: runBambuRouteFlowCommand_def Let_def existsFile_def routeFailure_def
          constraintFilePath_def constraintFileName_def)
qed

lemma example_first:
  "firstConstraint exampleProject = None"
  "firstConstraint exampleProjectC = Some exampleConstraint"
  "firstConstraint exampleProjectE = Some emptyPathConstraint"
  by (simp_all add: firstConstraint_def exampleProject_def exampleProjectC_def exampleProjectE_def
        exampleSource_def exampleConstraint_def emptyPathConstraint_def)

lemma example_constraintPathE:
  "constraintFilePath exampleEnv exampleProjectE = ''/proj/demo_bambu_cons.xml''"
  by (simp add: constraintFilePath_def constraintFileName_def exampleEnv_def exampleProjectE_def)

lemma example_generate_E:
  "generateBambuConstraintFile exampleEnv exampleProjectE emptyWorld =
     (None, emptyWorld\<lparr>trace := [Exists ''/proj/demo_bambu_cons.xml'']\<rparr>)"
proof -
  have f: "find isCSource (file_lists exampleProjectE) = None"
    by (simp add: exampleProjectE_def emptyPathConstraint_def isCSource_def)
  have t: "files emptyWorld ''/proj/demo_bambu_cons.xml'' = None" "trace emptyWorld = []"
    by (simp_all add: emptyWorld_def)
  show ?thesis
    by (simp add: generateBambuConstraintFile_def example_constraintPathE existsFile_def emit_def f t)
qed

text \<open>The only file tagged \<^verbatim>\<open>constraint\<close> has the empty path: the builder runs constraint generation (the existence check of the generated path is in the trace) and, as there is no source file, fails.\<close>

theorem place_constraint_counterexample:
  "emptyPathConstraint \<in> set (file_lists exampleProjectE)
   \<and> file_type emptyPathConstraint = ''constraint''
   \<and> runBambuPlaceFlowCommand exampleEnv exampleProjectE emptyWorld =
       (None, emptyWorld\<lparr>trace :=
          [Exists ''/proj/demo_bambu_cons.xml'',
           FailedNotification ''Place''
             ''Failed to generate constraint file. Please add a constraint file manually.'']\<rparr>)"
proof -
  have d: "declaredConstraint exampleProjectE = Some []"
    by (simp add: declaredConstraint_def exampleProjectE_def emptyPathConstraint_def)
  have m: "emptyPathConstraint \<in> set (file_lists exampleProjectE)"
    "file_type emptyPathConstraint = ''constraint''"
    by (simp_all add: exampleProjectE_def emptyPathConstraint_def)
  have r: "runBambuPlaceFlowCommand exampleEnv exampleProjectE emptyWorld =
       (None, emptyWorld\<lparr>trace :=
          [Exists ''/proj/demo_bambu_cons.xml'',
           FailedNotification ''Place''
             ''Failed to generate constraint file. Please add a constraint file manually.'']\<rparr>)"
    unfolding runBambuPlaceFlowCommand_def d example_generate_E
    by (simp add: showFailedNotification_def emit_def)
  from m r show ?thesis by blast
qed

text \<open>A declared constraint file, a generated one, and a failed generation.\<close>

theorem place_constraint_witness:
  "firstConstraint exampleProjectC = Some exampleConstraint \<and> file_path exampleConstraint \<noteq> []
   \<and> runBambuPlaceFlowCommand exampleEnv exampleProjectC exampleWorld =
       (Some (placeCommand exampleEnv exampleProjectC ''/proj/pins.xml''), exampleWorld)
   \<and> firstConstraint exampleProject = None
   \<and> runBambuPlaceFlowCommand wideEnv exampleProject exampleWorld =
       (Some (placeCommand wideEnv exampleProject ''/proj/demo_bambu_cons.xml''), generatedWorld)
   \<and> runBambuPlaceFlowCommand exampleEnv exampleProject emptyWorld =
       (None, placeFailure (emptyWorld\<lparr>trace :=
          [Exists ''/proj/demo_bambu_cons.xml'', Exists ''/proj/add.v'',
           FailedNotification ''Constraint Generation''
             ''HLS-generated Verilog file not found: add.v'']\<rparr>))"
proof -
  have p: "file_path exampleConstraint \<noteq> []" "file_path exampleConstraint = ''/proj/pins.xml''"
    by (simp_all add: exampleConstraint_def)
  have g: "generateBambuConstraintFile exampleEnv exampleProject emptyWorld =
     (None, emptyWorld\<lparr>trace :=
          [Exists ''/proj/demo_bambu_cons.xml'', Exists ''/proj/add.v'',
           FailedNotification ''Constraint Generation''
             ''HLS-generated Verilog file not found: add.v'']\<rparr>)"
  proof -
    have t: "files emptyWorld p = None" "trace emptyWorld = []" for p
      by (simp_all add: emptyWorld_def)
    have n: "file_name exampleSource = ''add.cpp''" by (simp add: exampleSource_def)
    have d: "getDirOfFile exampleEnv q = ''/proj/''" for q by (simp add: exampleEnv_def)
    show ?thesis
      by (simp add: generateBambuConstraintFile_def example_constraintPath existsFile_def emit_def
          Let_def showFailedNotification_def example_find n d t example_baseName)
  qed
  from place_constraint [of exampleProjectC exampleConstraint exampleEnv exampleWorld]
    place_constraint [of exampleProject exampleConstraint wideEnv exampleWorld]
    place_constraint [of exampleProject exampleConstraint exampleEnv emptyWorld]
    example_first p example_generate g
  show ?thesis by simp
qed

text \<open>Without a declared constraint file: the generated file absent, and present.\<close>

theorem route_never_generates_witness:
  "firstConstraint exampleProject = None
   \<and> files exampleWorld (constraintFilePath exampleEnv exampleProject) = None
   \<and> runBambuRouteFlowCommand exampleEnv exampleProject exampleWorld =
       (None, routeFailure (emit (Exists ''/proj/demo_bambu_cons.xml'') exampleWorld))
   \<and> files generatedWorld (constraintFilePath exampleEnv exampleProject) \<noteq> None
   \<and> runBambuRouteFlowCommand exampleEnv exampleProject generatedWorld =
       (Some (routeCommand exampleEnv exampleProject ''/proj/demo_bambu_cons.xml''),
        emit (Exists ''/proj/demo_bambu_cons.xml'') generatedWorld)"
proof -
  have a: "files exampleWorld (constraintFilePath exampleEnv exampleProject) = None"
    by (simp add: example_constraintPath exampleWorld_def)
  have b: "files generatedWorld (constraintFilePath exampleEnv exampleProject) \<noteq> None"
    by (simp add: example_constraintPath generatedWorld_def)
  from route_never_generates [of exampleEnv exampleProject exampleWorld]
    route_never_generates [of exampleEnv exampleProject generatedWorld]
    example_first(1) a b
  show ?thesis by (simp add: example_constraintPath)
qed

section \<open>Properties of port extraction\<close>

text \<open>\<open>includesStr s t\<close> holds exactly if \<open>t\<close> is a contiguous part of \<open>s\<close>.\<close>

lemma includesStr_sublist: "includesStr s t \<longleftrightarrow> sublist t s"
  by (induction s) (auto simp: sublist_Cons_right)

text \<open>What a successful match of a character, of \<^verbatim>\<open>c*\<close> and of \<^verbatim>\<open>c+\<close> has consumed.\<close>

lemma matchRe_Ch:
  "matchRe (Ch c # k) s cs = Some r \<Longrightarrow>
     \<exists>x xs. s = x # xs \<and> inClass c x \<and> matchRe k xs cs = Some r"
  by (cases s) (auto split: if_splits)

lemma matchRe_Star:
  "matchRe (Star c # k) s cs = Some r \<Longrightarrow>
     \<exists>u v. s = u @ v \<and> list_all (inClass c) u \<and> matchRe k v cs = Some r"
proof (induction s)
  case Nil
  then show ?case by simp
next
  case (Cons x xs)
  show ?case
  proof (cases "inClass c x \<and> matchRe (Star c # k) xs cs \<noteq> None")
    case True
    with Cons.prems have "matchRe (Star c # k) xs cs = Some r" by auto
    from Cons.IH [OF this] obtain u v where "xs = u @ v" "list_all (inClass c) u"
      "matchRe k v cs = Some r" by blast
    with True have "x # xs = (x # u) @ v \<and> list_all (inClass c) (x # u) \<and> matchRe k v cs = Some r"
      by simp
    then show ?thesis by blast
  next
    case False
    with Cons.prems have "matchRe k (x # xs) cs = Some r"
      by (auto split: if_splits option.splits)
    then have "x # xs = [] @ (x # xs) \<and> list_all (inClass c) [] \<and> matchRe k (x # xs) cs = Some r"
      by simp
    then show ?thesis by blast
  qed
qed

lemma matchRe_Plus:
  "matchRe (Plus c # k) s cs = Some r \<Longrightarrow>
     \<exists>u v. s = u @ v \<and> u \<noteq> [] \<and> list_all (inClass c) u \<and> matchRe k v cs = Some r"
proof (cases s)
  case Nil
  assume "matchRe (Plus c # k) s cs = Some r"
  with Nil show ?thesis by simp
next
  case (Cons x xs)
  assume "matchRe (Plus c # k) s cs = Some r"
  with Cons have x: "inClass c x" and "matchRe (Star c # k) xs cs = Some r"
    by (auto split: if_splits)
  from matchRe_Star [OF this(2)] obtain u v where "xs = u @ v" "list_all (inClass c) u"
    "matchRe k v cs = Some r" by blast
  with x Cons have "s = (x # u) @ v \<and> x # u \<noteq> [] \<and> list_all (inClass c) (x # u) \<and> matchRe k v cs = Some r"
    by simp
  then show ?thesis by blast
qed

text \<open>A lazy \<^verbatim>\<open>c*?\<close> stops at the first position where the rest of the pattern matches.\<close>

lemma matchRe_LazyStar_first:
  "matchRe (LazyStar c # k) s cs = Some r \<Longrightarrow>
     \<exists>u v. s = u @ v \<and> list_all (inClass c) u \<and> matchRe k v cs = Some r
           \<and> (\<forall>i<length u. matchRe k (drop i s) cs = None)"
proof (induction s)
  case Nil
  then show ?case by simp
next
  case (Cons x xs)
  show ?case
  proof (cases "matchRe k (x # xs) cs")
    case (Some r')
    with Cons.prems have "matchRe k (x # xs) cs = Some r" by simp
    then have "x # xs = [] @ (x # xs) \<and> list_all (inClass c) [] \<and> matchRe k (x # xs) cs = Some r
        \<and> (\<forall>i<length ([]::string). matchRe k (drop i (x # xs)) cs = None)"
      by simp
    then show ?thesis by blast
  next
    case None
    with Cons.prems have x: "inClass c x" and "matchRe (LazyStar c # k) xs cs = Some r"
      by (auto split: if_splits)
    from Cons.IH [OF this(2)] obtain u v where u: "xs = u @ v" "list_all (inClass c) u"
      "matchRe k v cs = Some r" and f: "\<forall>i<length u. matchRe k (drop i xs) cs = None" by blast
    have "matchRe k (drop i (x # xs)) cs = None" if "i < length (x # u)" for i
    proof (cases i)
      case 0
      with None show ?thesis by simp
    next
      case (Suc j)
      with that f show ?thesis by simp
    qed
    with x u have "x # xs = (x # u) @ v \<and> list_all (inClass c) (x # u) \<and> matchRe k v cs = Some r
        \<and> (\<forall>i<length (x # u). matchRe k (drop i (x # xs)) cs = None)"
      by simp
    then show ?thesis by blast
  qed
qed

lemma matchRe_LazyStar_firstE:
  assumes "matchRe (LazyStar c # k) s cs = Some r"
  obtains u v where "s = u @ v" and "list_all (inClass c) u" and "matchRe k v cs = Some r"
    and "\<forall>i<length u. matchRe k (drop i s) cs = None"
  using matchRe_LazyStar_first [OF assms] by blast

lemma matchRe_lit:
  "matchRe (lit w # k) t cs = (if prefix w t then matchRe k (drop (length w) t) cs else None)"
proof (induction w arbitrary: t)
  case Nil
  show ?case by (simp add: lit_def seq_def)
next
  case (Cons a w)
  have step: "matchRe (lit (a # w) # k) t cs = matchRe (Ch (Lit a) # lit w # k) t cs" for t
    by (simp add: lit_def seq_def)
  show ?case
  proof (cases t)
    case Nil
    then show ?thesis by (simp add: step)
  next
    case (Cons x xs)
    then show ?thesis by (simp add: step Cons.IH)
  qed
qed

lemma matchRe_seq_Cons: "matchRe (seq (r # rs) # k) t cs = matchRe (r # seq rs # k) t cs"
  by (simp add: seq_def)

lemma matchRe_seq_Nil: "matchRe (seq [] # k) t cs = matchRe k t cs"
  by (simp add: seq_def)

lemma matchRe_Alt:
  "matchRe (Alt a b # k) s cs = Some r \<Longrightarrow>
     matchRe (a # k) s cs = Some r \<or> matchRe (b # k) s cs = Some r"
  by (auto split: option.splits)

lemma matchRe_Opt:
  "matchRe (Opt a # k) s cs = Some r \<Longrightarrow>
     matchRe (a # k) s cs = Some r \<or> matchRe k s cs = Some r"
  by (auto split: option.splits)

lemma matchRe_PlusE:
  assumes "matchRe (Plus c # k) s cs = Some r"
  obtains u v where "s = u @ v" and "u \<noteq> []" and "list_all (inClass c) u"
    and "matchRe k v cs = Some r"
  using matchRe_Plus [OF assms] by blast

lemma matchRe_StarE:
  assumes "matchRe (Star c # k) s cs = Some r"
  obtains u v where "s = u @ v" and "list_all (inClass c) u" and "matchRe k v cs = Some r"
  using matchRe_Star [OF assms] by blast

lemma matchRe_litE:
  assumes "matchRe (lit w # k) s cs = Some r"
  obtains v where "s = w @ v" and "matchRe k v cs = Some r"
proof -
  from assms have p: "prefix w s" and m: "matchRe k (drop (length w) s) cs = Some r"
    by (auto simp: matchRe_lit split: if_splits)
  from p obtain v where v: "s = w @ v" by (auto simp: prefix_def)
  with m have "matchRe k v cs = Some r" by simp
  with v show thesis by (rule that)
qed

text \<open>A lazy \<^verbatim>\<open>[\s\S]*?\<close> in front of a literal finds the literal wherever it occurs.\<close>

lemma lazy_finds:
  "matchRe [LazyStar AnyChar, Close n t0, seq [lit w]] (a @ w @ b) cs \<noteq> None"
proof (induction a)
  case Nil
  have "matchRe [Close n t0, seq [lit w]] (w @ b) cs \<noteq> None"
    by (simp add: matchRe_seq_Cons matchRe_seq_Nil matchRe_lit)
  then show ?case
    by (cases "w @ b") (auto split: option.splits)
next
  case (Cons x a)
  then show ?case by (auto split: option.splits)
qed

lemma prefix_shorter:
  "length w \<le> length a \<Longrightarrow> prefix w (a @ z) \<Longrightarrow> prefix w a"
  "prefix w a \<Longrightarrow> prefix w (a @ z)"
proof -
  assume l: "length w \<le> length a" and p: "prefix w (a @ z)"
  have "prefix a (a @ z)" by simp
  from prefix_length_prefix [OF p this l] show "prefix w a" .
next
  assume "prefix w a"
  then show "prefix w (a @ z)" by (rule prefix_prefix)
qed

lemma take_captured: "take (length (a @ s) - length s) (a @ s) = a"
  by simp

text \<open>Every match of the module pattern has the shape of the pattern: the port list
  ends at the first \<^verbatim>\<open>);\<close>, the body at the first \<^verbatim>\<open>endmodule\<close> after it, and the three
  groups hold the name, the port list and the body.\<close>

lemma moduleRegex_match:
  assumes "matchRe [moduleRegex] s [] = Some (rest, cs)"
  shows "\<exists>sp ds ws sp' pl body.
           s = ''module'' @ sp @ ''_Z'' @ ds @ ws @ sp' @ ''('' @ pl @ '');'' @ body @ ''endmodule'' @ rest
           \<and> sp \<noteq> [] \<and> list_all isSpace sp
           \<and> ds \<noteq> [] \<and> list_all isDigit ds
           \<and> ws \<noteq> [] \<and> list_all isWord ws
           \<and> list_all isSpace sp'
           \<and> (\<forall>i<length pl. \<not> prefix '');'' (drop i (pl @ '');'')))
           \<and> (\<forall>i<length body. \<not> prefix ''endmodule'' (drop i (body @ ''endmodule'')))
           \<and> cs = [(3, body), (2, pl), (1, ''_Z'' @ ds @ ws)]"
proof -
  let ?L = "LazyStar AnyChar"
  let ?E = "lit ''endmodule''"
  let ?R5 = "seq [lit '');'', Group 3 ?L, ?E]"
  let ?R3b = "seq [lit ''('', Group 2 ?L, lit '');'', Group 3 ?L, ?E]"
  let ?R3 = "seq [Star Space, lit ''('', Group 2 ?L, lit '');'', Group 3 ?L, ?E]"
  let ?R2 = "seq [Group 1 (seq [lit ''_Z'', Plus Digit, Plus Word]), Star Space, lit ''('',
                  Group 2 ?L, lit '');'', Group 3 ?L, ?E]"
  from assms obtain s1 where s: "s = ''module'' @ s1" and
    m1: "matchRe [Plus Space, ?R2] s1 [] = Some (rest, cs)"
    by (auto simp: moduleRegex_def seq_def lit_def dest!: matchRe_Ch)
  from matchRe_Plus [OF m1] obtain sp s2 where s1: "s1 = sp @ s2" and
    sp: "sp \<noteq> []" "list_all isSpace sp" and
    m2: "matchRe [?R2] s2 [] = Some (rest, cs)"
    by (auto simp: list_all_iff)
  from m2 obtain s3 where s2: "s2 = ''_Z'' @ s3" and
    m3: "matchRe [Plus Digit, seq [Plus Word], Close 1 s2, ?R3] s3 [] = Some (rest, cs)"
    by (auto simp: seq_def lit_def dest!: matchRe_Ch)
  from matchRe_Plus [OF m3] obtain ds s4 where s3: "s3 = ds @ s4" and
    ds: "ds \<noteq> []" "list_all isDigit ds" and
    m4: "matchRe [seq [Plus Word], Close 1 s2, ?R3] s4 [] = Some (rest, cs)"
    by (auto simp: list_all_iff)
  from m4 have m4': "matchRe [Plus Word, Eps, Close 1 s2, ?R3] s4 [] = Some (rest, cs)"
    by (simp add: seq_def)
  from matchRe_Plus [OF m4'] obtain ws s5 where s4: "s4 = ws @ s5" and
    ws: "ws \<noteq> []" "list_all isWord ws" and
    m5: "matchRe [Eps, Close 1 s2, ?R3] s5 [] = Some (rest, cs)"
    by (auto simp: list_all_iff)
  have c1: "take (length s2 - length s5) s2 = ''_Z'' @ ds @ ws"
    using take_captured [of "''_Z'' @ ds @ ws" s5] by (simp add: s2 s3 s4)
  from m5 have m6: "matchRe [Star Space, ?R3b] s5 [(1, ''_Z'' @ ds @ ws)] = Some (rest, cs)"
    by (simp add: seq_def c1)
  from matchRe_Star [OF m6] obtain sp' s6 where s5: "s5 = sp' @ s6" and
    sp': "list_all isSpace sp'" and
    m7: "matchRe [?R3b] s6 [(1, ''_Z'' @ ds @ ws)] = Some (rest, cs)"
    by (auto simp: list_all_iff)
  from m7 obtain s7 where s6: "s6 = ''('' @ s7" and
    m8: "matchRe [?L, Close 2 s7, ?R5] s7 [(1, ''_Z'' @ ds @ ws)] = Some (rest, cs)"
    by (auto simp: seq_def lit_def dest!: matchRe_Ch)
  from m8 obtain pl s8 where s7: "s7 = pl @ s8" and
    m9: "matchRe [Close 2 s7, ?R5] s8 [(1, ''_Z'' @ ds @ ws)] = Some (rest, cs)" and
    f2: "\<forall>i<length pl. matchRe [Close 2 s7, ?R5] (drop i s7) [(1, ''_Z'' @ ds @ ws)] = None"
    by (rule matchRe_LazyStar_firstE)
  have c2: "take (length s7 - length s8) s7 = pl"
    using take_captured [of pl s8] by (simp add: s7)
  from m9 have m9': "matchRe [?R5] s8 [(2, pl), (1, ''_Z'' @ ds @ ws)] = Some (rest, cs)"
    by (simp add: c2)
  from m9' obtain s9 where s8: "s8 = '');'' @ s9" and
    m10: "matchRe [?L, Close 3 s9, seq [?E]] s9 [(2, pl), (1, ''_Z'' @ ds @ ws)] = Some (rest, cs)"
    by (auto simp: seq_def lit_def dest!: matchRe_Ch)
  from m10 obtain body s10 where s9: "s9 = body @ s10" and
    m11: "matchRe [Close 3 s9, seq [?E]] s10 [(2, pl), (1, ''_Z'' @ ds @ ws)] = Some (rest, cs)" and
    f3: "\<forall>i<length body.
           matchRe [Close 3 s9, seq [?E]] (drop i s9) [(2, pl), (1, ''_Z'' @ ds @ ws)] = None"
    by (rule matchRe_LazyStar_firstE)
  have c3: "take (length s9 - length s10) s9 = body"
    using take_captured [of body s10] by (simp add: s9)
  from m11 have m12: "matchRe [seq [?E]] s10 [(3, body), (2, pl), (1, ''_Z'' @ ds @ ws)] = Some (rest, cs)"
    by (simp add: c3)
  from m12 have e: "s10 = ''endmodule'' @ rest" and
    cs: "cs = [(3, body), (2, pl), (1, ''_Z'' @ ds @ ws)]"
    by (auto simp: seq_def lit_def dest!: matchRe_Ch)
  have n3: "\<not> prefix ''endmodule'' (drop i (body @ ''endmodule''))" if i: "i < length body" for i
  proof
    assume "prefix ''endmodule'' (drop i (body @ ''endmodule''))"
    then have "prefix ''endmodule'' (drop i (body @ ''endmodule'') @ rest)"
      by (rule prefix_shorter(2))
    moreover have "drop i s9 = drop i (body @ ''endmodule'') @ rest"
      using i by (simp add: s9 e)
    ultimately have "prefix ''endmodule'' (drop i s9)" by simp
    then have "matchRe [Close 3 s9, seq [?E]] (drop i s9) [(2, pl), (1, ''_Z'' @ ds @ ws)] \<noteq> None"
      by (simp add: matchRe_seq_Cons matchRe_seq_Nil matchRe_lit)
    moreover from f3 [rule_format, OF i]
    have "matchRe [Close 3 s9, seq [?E]] (drop i s9) [(2, pl), (1, ''_Z'' @ ds @ ws)] = None" .
    ultimately show False by (rule notE)
  qed
  have n2: "\<not> prefix '');'' (drop i (pl @ '');''))" if i: "i < length pl" for i
  proof
    assume p: "prefix '');'' (drop i (pl @ '');''))"
    let ?d = "drop i pl"
    from i have d: "drop i (pl @ '');'') = ?d @ '');''" and dn: "?d \<noteq> []" by simp_all
    have l: "length '');'' \<le> length ?d"
    proof (rule ccontr)
      assume "\<not> length '');'' \<le> length ?d"
      with dn obtain c where "?d = [c]"
        by (cases ?d) (auto simp: Suc_le_eq)
      with p d i show False by simp
    qed
    from p d have "prefix '');'' (?d @ '');'')" by simp
    from prefix_shorter(1) [OF l this] have "prefix '');'' ?d" .
    then obtain d' where d': "?d = '');'' @ d'" by (auto simp: prefix_def)
    have t: "drop i s7 = '');'' @ (d' @ '');'' @ body) @ ''endmodule'' @ rest"
      using i d' by (simp add: s7 s8 s9 e)
    have "matchRe [Close 2 s7, ?R5] (drop i s7) [(1, ''_Z'' @ ds @ ws)] \<noteq> None"
      unfolding t
      using lazy_finds [of 3 "(d' @ '');'' @ body) @ ''endmodule'' @ rest" "''endmodule''"
          "d' @ '');'' @ body" rest]
      by (simp add: matchRe_seq_Cons matchRe_seq_Nil matchRe_lit)
    moreover from f2 [rule_format, OF i]
    have "matchRe [Close 2 s7, ?R5] (drop i s7) [(1, ''_Z'' @ ds @ ws)] = None" .
    ultimately show False by (rule notE)
  qed
  have n2': "\<forall>i<length pl. \<not> prefix '');'' (drop i (pl @ '');''))"
    using n2 by blast
  have n3': "\<forall>i<length body. \<not> prefix ''endmodule'' (drop i (body @ ''endmodule''))"
    using n3 by blast
  have t: "s = ''module'' @ sp @ ''_Z'' @ ds @ ws @ sp' @ ''('' @ pl @ '');'' @ body @ ''endmodule'' @ rest"
    by (simp add: s s1 s2 s3 s4 s5 s6 s7 s8 s9 e)
  show ?thesis
  proof (intro exI conjI)
    show "s = ''module'' @ sp @ ''_Z'' @ ds @ ws @ sp' @ ''('' @ pl @ '');'' @ body @ ''endmodule'' @ rest"
      by (rule t)
    show "sp \<noteq> []" "list_all isSpace sp" "ds \<noteq> []" "list_all isDigit ds"
      "ws \<noteq> []" "list_all isWord ws" "list_all isSpace sp'"
      by fact+
    show "\<forall>i<length pl. \<not> prefix '');'' (drop i (pl @ '');''))" by (rule n2')
    show "\<forall>i<length body. \<not> prefix ''endmodule'' (drop i (body @ ''endmodule''))" by (rule n3')
    show "cs = [(3, body), (2, pl), (1, ''_Z'' @ ds @ ws)]" by (rule cs)
  qed
qed

lemma moduleRegex_matchE:
  assumes "matchRe [moduleRegex] s [] = Some (rest, cs)"
  obtains sp ds ws sp' pl body where
    "s = ''module'' @ sp @ ''_Z'' @ ds @ ws @ sp' @ ''('' @ pl @ '');'' @ body @ ''endmodule'' @ rest"
    and "sp \<noteq> []" and "list_all isSpace sp"
    and "ds \<noteq> []" and "list_all isDigit ds"
    and "ws \<noteq> []" and "list_all isWord ws"
    and "list_all isSpace sp'"
    and "\<forall>i<length pl. \<not> prefix '');'' (drop i (pl @ '');''))"
    and "\<forall>i<length body. \<not> prefix ''endmodule'' (drop i (body @ ''endmodule''))"
    and "cs = [(3, body), (2, pl), (1, ''_Z'' @ ds @ ws)]"
  using moduleRegex_match [OF assms] by (elim exE conjE) (rule that, assumption+)

text \<open>The end of a port declaration: the name, optional space and the semicolon.\<close>

lemma portRegex_tail:
  assumes "matchRe [seq [Group 4 (Plus Word), Star Space, lit '';'']] t cs0 = Some (rest, cs)"
  shows "\<exists>nm sp'. t = nm @ sp' @ '';'' @ rest \<and> nm \<noteq> [] \<and> list_all isWord nm
           \<and> list_all isSpace sp' \<and> cs = (4, nm) # cs0"
proof -
  from assms have "matchRe [Plus Word, Close 4 t, seq [Star Space, lit '';'']] t cs0 = Some (rest, cs)"
    by (simp add: matchRe_seq_Cons)
  then obtain nm t1 where t: "t = nm @ t1" and nm: "nm \<noteq> []" "list_all (inClass Word) nm" and
    m1: "matchRe [Close 4 t, seq [Star Space, lit '';'']] t1 cs0 = Some (rest, cs)"
    by (rule matchRe_PlusE)
  have c: "take (length t - length t1) t = nm"
    using take_captured [of nm t1] by (simp add: t)
  from m1 have "matchRe [Star Space, seq [lit '';'']] t1 ((4, nm) # cs0) = Some (rest, cs)"
    by (simp add: c matchRe_seq_Cons)
  then obtain sp' t2 where t1: "t1 = sp' @ t2" and sp': "list_all (inClass Space) sp'" and
    m2: "matchRe [seq [lit '';'']] t2 ((4, nm) # cs0) = Some (rest, cs)"
    by (rule matchRe_StarE)
  from m2 have "matchRe [lit '';'', seq []] t2 ((4, nm) # cs0) = Some (rest, cs)"
    by (simp add: matchRe_seq_Cons)
  then obtain t3 where t2: "t2 = '';'' @ t3" and
    m3: "matchRe [seq []] t3 ((4, nm) # cs0) = Some (rest, cs)"
    by (rule matchRe_litE)
  from m3 have r: "t3 = rest" "cs = (4, nm) # cs0"
    by (simp_all add: matchRe_seq_Nil)
  have "t = nm @ sp' @ '';'' @ rest" by (simp add: t t1 t2 r)
  with nm sp' r show ?thesis
    by (intro exI [of _ nm] exI [of _ sp']) (simp add: list_all_iff)
qed

text \<open>Every match of the port pattern is a declaration \<^verbatim>\<open>input\<close> or \<^verbatim>\<open>output\<close>, space, an
  optional range \<^verbatim>\<open>[msb:lsb]\<close> followed by space, a name, optional space and a semicolon;
  the port made of it has the declared name, direction and range, or the range \<^verbatim>\<open>0:0\<close> when
  none is declared.\<close>

lemma portRegex_match:
  assumes "matchRe [portRegex] s [] = Some (rest, cs)"
  shows "\<exists>kw sp rng nm sp'.
           s = kw @ sp @ rng @ nm @ sp' @ '';'' @ rest
           \<and> (kw = ''input'' \<or> kw = ''output'')
           \<and> sp \<noteq> [] \<and> list_all isSpace sp
           \<and> nm \<noteq> [] \<and> list_all isWord nm \<and> list_all isSpace sp'
           \<and> ((rng = [] \<and>
                portOfMatch cs = \<lparr>port_name = nm, port_direction = directionOf (Some kw),
                                   port_msb = 0, port_lsb = 0\<rparr>)
              \<or> (\<exists>m l sp2. rng = ''['' @ m @ '':'' @ l @ '']'' @ sp2
                    \<and> m \<noteq> [] \<and> list_all isDigit m \<and> l \<noteq> [] \<and> list_all isDigit l
                    \<and> sp2 \<noteq> [] \<and> list_all isSpace sp2
                    \<and> portOfMatch cs = \<lparr>port_name = nm, port_direction = directionOf (Some kw),
                                         port_msb = parseInt m, port_lsb = parseInt l\<rparr>))"
proof -
  let ?T = "seq [Group 4 (Plus Word), Star Space, lit '';'']"
  let ?O = "seq [lit ''['', Group 2 (Plus Digit), lit '':'', Group 3 (Plus Digit), lit '']'', Plus Space]"
  let ?P2 = "seq [Plus Space, Opt ?O, Group 4 (Plus Word), Star Space, lit '';'']"
  from assms have
    a: "matchRe [Alt (lit ''input'') (lit ''output''), Close 1 s, ?P2] s [] = Some (rest, cs)"
    by (simp add: portRegex_def matchRe_seq_Cons)
  from matchRe_Alt [OF a] obtain kw where kw: "kw = ''input'' \<or> kw = ''output''" and
    mk: "matchRe [lit kw, Close 1 s, ?P2] s [] = Some (rest, cs)"
    by blast
  from mk obtain s1 where s: "s = kw @ s1" and
    m1: "matchRe [Close 1 s, ?P2] s1 [] = Some (rest, cs)"
    by (rule matchRe_litE)
  have c1: "take (length s - length s1) s = kw"
    using take_captured [of kw s1] by (simp add: s)
  from m1 have "matchRe [Plus Space, seq [Opt ?O, Group 4 (Plus Word), Star Space, lit '';'']] s1 [(1, kw)]
                  = Some (rest, cs)"
    by (simp add: c1 matchRe_seq_Cons)
  then obtain sp s2 where s1: "s1 = sp @ s2" and sp: "sp \<noteq> []" "list_all (inClass Space) sp" and
    m2: "matchRe [seq [Opt ?O, Group 4 (Plus Word), Star Space, lit '';'']] s2 [(1, kw)] = Some (rest, cs)"
    by (rule matchRe_PlusE)
  from m2 have m2': "matchRe [Opt ?O, ?T] s2 [(1, kw)] = Some (rest, cs)"
    by (simp add: matchRe_seq_Cons)
  from matchRe_Opt [OF m2'] show ?thesis
  proof
    assume "matchRe [?T] s2 [(1, kw)] = Some (rest, cs)"
    from portRegex_tail [OF this] obtain nm sp' where
      s2: "s2 = nm @ sp' @ '';'' @ rest" and nm: "nm \<noteq> []" "list_all isWord nm" and
      sp': "list_all isSpace sp'" and cs: "cs = [(4, nm), (1, kw)]"
      by blast
    have t: "s = kw @ sp @ [] @ nm @ sp' @ '';'' @ rest"
      by (simp add: s s1 s2)
    have p: "portOfMatch cs = \<lparr>port_name = nm, port_direction = directionOf (Some kw),
                                   port_msb = 0, port_lsb = 0\<rparr>"
      by (simp add: portOfMatch_def cap_def cs)
    show ?thesis
    proof (intro exI conjI)
      show "s = kw @ sp @ [] @ nm @ sp' @ '';'' @ rest" by (rule t)
      show "kw = ''input'' \<or> kw = ''output''" by (rule kw)
      show "sp \<noteq> []" by fact
      show "list_all isSpace sp" using sp(2) by (simp add: list_all_iff)
      show "nm \<noteq> []" "list_all isWord nm" "list_all isSpace sp'" by fact+
      show "([] = [] \<and> portOfMatch cs = \<lparr>port_name = nm, port_direction = directionOf (Some kw),
                                   port_msb = 0, port_lsb = 0\<rparr>)
              \<or> (\<exists>m l sp2. [] = ''['' @ m @ '':'' @ l @ '']'' @ sp2
                    \<and> m \<noteq> [] \<and> list_all isDigit m \<and> l \<noteq> [] \<and> list_all isDigit l
                    \<and> sp2 \<noteq> [] \<and> list_all isSpace sp2
                    \<and> portOfMatch cs = \<lparr>port_name = nm, port_direction = directionOf (Some kw),
                                         port_msb = parseInt m, port_lsb = parseInt l\<rparr>)"
        using p by simp
    qed
  next
    assume "matchRe [?O, ?T] s2 [(1, kw)] = Some (rest, cs)"
    then have "matchRe [lit ''['', seq [Group 2 (Plus Digit), lit '':'', Group 3 (Plus Digit),
                                        lit '']'', Plus Space], ?T] s2 [(1, kw)] = Some (rest, cs)"
      by (simp add: matchRe_seq_Cons)
    then obtain t1 where s2: "s2 = ''['' @ t1" and
      "matchRe [seq [Group 2 (Plus Digit), lit '':'', Group 3 (Plus Digit), lit '']'', Plus Space], ?T]
         t1 [(1, kw)] = Some (rest, cs)"
      by (rule matchRe_litE)
    then have "matchRe [Plus Digit, Close 2 t1,
                 seq [lit '':'', Group 3 (Plus Digit), lit '']'', Plus Space], ?T]
         t1 [(1, kw)] = Some (rest, cs)"
      by (simp add: matchRe_seq_Cons)
    then obtain m t2 where t1: "t1 = m @ t2" and m: "m \<noteq> []" "list_all (inClass Digit) m" and
      m3: "matchRe [Close 2 t1, seq [lit '':'', Group 3 (Plus Digit), lit '']'', Plus Space], ?T]
         t2 [(1, kw)] = Some (rest, cs)"
      by (rule matchRe_PlusE)
    have c2: "take (length t1 - length t2) t1 = m"
      using take_captured [of m t2] by (simp add: t1)
    from m3 have "matchRe [lit '':'', seq [Group 3 (Plus Digit), lit '']'', Plus Space], ?T]
         t2 [(2, m), (1, kw)] = Some (rest, cs)"
      by (simp add: c2 matchRe_seq_Cons)
    then obtain t3 where t2: "t2 = '':'' @ t3" and
      "matchRe [seq [Group 3 (Plus Digit), lit '']'', Plus Space], ?T]
         t3 [(2, m), (1, kw)] = Some (rest, cs)"
      by (rule matchRe_litE)
    then have "matchRe [Plus Digit, Close 3 t3, seq [lit '']'', Plus Space], ?T]
         t3 [(2, m), (1, kw)] = Some (rest, cs)"
      by (simp add: matchRe_seq_Cons)
    then obtain l t4 where t3: "t3 = l @ t4" and l: "l \<noteq> []" "list_all (inClass Digit) l" and
      m4: "matchRe [Close 3 t3, seq [lit '']'', Plus Space], ?T]
         t4 [(2, m), (1, kw)] = Some (rest, cs)"
      by (rule matchRe_PlusE)
    have c3: "take (length t3 - length t4) t3 = l"
      using take_captured [of l t4] by (simp add: t3)
    from m4 have "matchRe [lit '']'', seq [Plus Space], ?T]
         t4 [(3, l), (2, m), (1, kw)] = Some (rest, cs)"
      by (simp add: c3 matchRe_seq_Cons)
    then obtain t5 where t4: "t4 = '']'' @ t5" and
      "matchRe [seq [Plus Space], ?T] t5 [(3, l), (2, m), (1, kw)] = Some (rest, cs)"
      by (rule matchRe_litE)
    then have "matchRe [Plus Space, seq [], ?T] t5 [(3, l), (2, m), (1, kw)] = Some (rest, cs)"
      by (simp add: matchRe_seq_Cons)
    then obtain sp2 t6 where t5: "t5 = sp2 @ t6" and sp2: "sp2 \<noteq> []" "list_all (inClass Space) sp2" and
      "matchRe [seq [], ?T] t6 [(3, l), (2, m), (1, kw)] = Some (rest, cs)"
      by (rule matchRe_PlusE)
    then have "matchRe [?T] t6 [(3, l), (2, m), (1, kw)] = Some (rest, cs)"
      by (simp add: matchRe_seq_Nil)
    from portRegex_tail [OF this] obtain nm sp' where
      t6: "t6 = nm @ sp' @ '';'' @ rest" and nm: "nm \<noteq> []" "list_all isWord nm" and
      sp': "list_all isSpace sp'" and cs: "cs = [(4, nm), (3, l), (2, m), (1, kw)]"
      by blast
    have t: "s = kw @ sp @ (''['' @ m @ '':'' @ l @ '']'' @ sp2) @ nm @ sp' @ '';'' @ rest"
      by (simp add: s s1 s2 t1 t2 t3 t4 t5 t6)
    have p: "portOfMatch cs = \<lparr>port_name = nm, port_direction = directionOf (Some kw),
                                   port_msb = parseInt m, port_lsb = parseInt l\<rparr>"
      by (simp add: portOfMatch_def cap_def cs)
    have rng: "\<exists>m' l' sp2'. ''['' @ m @ '':'' @ l @ '']'' @ sp2 = ''['' @ m' @ '':'' @ l' @ '']'' @ sp2'
                    \<and> m' \<noteq> [] \<and> list_all isDigit m' \<and> l' \<noteq> [] \<and> list_all isDigit l'
                    \<and> sp2' \<noteq> [] \<and> list_all isSpace sp2'
                    \<and> portOfMatch cs = \<lparr>port_name = nm, port_direction = directionOf (Some kw),
                                         port_msb = parseInt m', port_lsb = parseInt l'\<rparr>"
      using m l sp2 p
      by (intro exI [of _ m] exI [of _ l] exI [of _ sp2]) (simp add: list_all_iff)
    show ?thesis
    proof (intro exI conjI)
      show "s = kw @ sp @ (''['' @ m @ '':'' @ l @ '']'' @ sp2) @ nm @ sp' @ '';'' @ rest" by (rule t)
      show "kw = ''input'' \<or> kw = ''output''" by (rule kw)
      show "sp \<noteq> []" by fact
      show "list_all isSpace sp" using sp(2) by (simp add: list_all_iff)
      show "nm \<noteq> []" "list_all isWord nm" "list_all isSpace sp'" by fact+
      show "(''['' @ m @ '':'' @ l @ '']'' @ sp2 = [] \<and>
                portOfMatch cs = \<lparr>port_name = nm, port_direction = directionOf (Some kw),
                                   port_msb = 0, port_lsb = 0\<rparr>)
              \<or> (\<exists>m' l' sp2'. ''['' @ m @ '':'' @ l @ '']'' @ sp2 = ''['' @ m' @ '':'' @ l' @ '']'' @ sp2'
                    \<and> m' \<noteq> [] \<and> list_all isDigit m' \<and> l' \<noteq> [] \<and> list_all isDigit l'
                    \<and> sp2' \<noteq> [] \<and> list_all isSpace sp2'
                    \<and> portOfMatch cs = \<lparr>port_name = nm, port_direction = directionOf (Some kw),
                                         port_msb = parseInt m', port_lsb = parseInt l'\<rparr>)"
        using rng by (rule disjI2)
    qed
  qed
qed


lemma moduleRegex_groups:
  assumes "exec moduleRegex s = Some (pre, rest, m)"
  shows "cap m 1 \<noteq> None \<and> cap m 3 \<noteq> None"
proof -
  from exec_split [OF assms] obtain s' where "matchRe [moduleRegex] s' [] = Some (rest, m)"
    by blast
  then obtain body pl nm where "m = [(3, body), (2, pl), (1, nm)]"
    by (rule moduleRegex_matchE)
  then show ?thesis
    by (simp add: cap_def)
qed

lemma isDigit_isWord: "isDigit c \<Longrightarrow> isWord c"
  by (auto simp: isDigit_def isWord_def)

text \<open>Characters of different classes.\<close>

lemma isSpace_not_isWord: "isSpace c \<Longrightarrow> \<not> isWord c"
  by (auto simp: isSpace_def isWord_def)

lemma isSpace_chars:
  "\<not> isSpace CHR ''_''" "\<not> isSpace CHR ''(''" "\<not> isSpace CHR '';''" "\<not> isSpace CHR ''[''"
  by (simp_all add: isSpace_def)

lemma isWord_chars:
  "\<not> isWord CHR ''(''" "\<not> isWord CHR '';''" "\<not> isWord CHR ''[''"
  by (simp_all add: isWord_def)

lemma isDigit_chars:
  "\<not> isDigit CHR '':''" "\<not> isDigit CHR '']''"
  by (simp_all add: isDigit_def)

text \<open>A run of characters of a class that ends where the class ends is determined by the
  text.\<close>

lemma takeWhile_run:
  "list_all P u \<Longrightarrow> x = [] \<or> \<not> P (hd x) \<Longrightarrow> takeWhile P (u @ x) = u"
  by (induction u) (auto simp: takeWhile_eq_Nil_iff neq_Nil_conv)

lemma run_unique:
  assumes "list_all P u" and "list_all P u'" and "u @ x = u' @ x'"
    and "x = [] \<or> \<not> P (hd x)" and "x' = [] \<or> \<not> P (hd x')"
  shows "u = u' \<and> x = x'"
proof -
  have "u = takeWhile P (u @ x)" using assms(1,4) by (simp add: takeWhile_run)
  also have "\<dots> = takeWhile P (u' @ x')" by (simp add: assms(3))
  also have "\<dots> = u'" using assms(2,5) by (simp add: takeWhile_run)
  finally have "u = u'" .
  with assms(3) show ?thesis by simp
qed

text \<open>The text in front of the first occurrence of a word is determined by the text.\<close>

lemma endsAtFirst_le:
  assumes "endsAtFirst w u'" and "u @ w @ x = u' @ w @ x'"
  shows "length u' \<le> length u"
proof (rule ccontr)
  assume "\<not> length u' \<le> length u"
  then have i: "length u < length u'" by simp
  have "drop (length u) (u @ w @ x) = w @ x" by simp
  then have e1: "drop (length u) (u' @ w @ x') = w @ x" unfolding assms(2) .
  have e2: "drop (length u) (u' @ w @ x') = drop (length u) (u' @ w) @ x'"
    using i by simp
  from e2 [symmetric] e1 have "drop (length u) (u' @ w) @ x' = w @ x" by (rule trans)
  then have p: "prefix w (drop (length u) (u' @ w) @ x')" by (rule prefixI)
  have l: "length w \<le> length (drop (length u) (u' @ w))" using i by simp
  from prefix_shorter(1) [OF l p] have p': "prefix w (drop (length u) (u' @ w))" .
  from assms(1) i have n: "\<not> prefix w (drop (length u) (u' @ w))"
    by (simp add: endsAtFirst_def)
  from n p' show False by (rule notE)
qed

lemma endsAtFirst_unique:
  assumes "endsAtFirst w u" and "endsAtFirst w u'" and "u @ w @ x = u' @ w @ x'"
  shows "u = u' \<and> x = x'"
proof -
  from endsAtFirst_le [OF assms(2,3)] endsAtFirst_le [OF assms(1) assms(3) [symmetric]]
  have "length u = length u'" by simp
  with assms(3) show ?thesis by simp
qed

text \<open>The matcher finds a match whenever the text can be split to fit the pattern.\<close>

lemma lazy_complete:
  "list_all (inClass c) u \<Longrightarrow> matchRe k v cs \<noteq> None \<Longrightarrow>
     matchRe (LazyStar c # k) (u @ v) cs \<noteq> None"
proof (induction u)
  case Nil
  then show ?case by (cases v) (auto split: option.splits)
next
  case (Cons a u)
  then show ?case by (auto split: option.splits)
qed

lemma star_complete:
  "list_all (inClass c) u \<Longrightarrow> matchRe k v cs \<noteq> None \<Longrightarrow>
     matchRe (Star c # k) (u @ v) cs \<noteq> None"
proof (induction u)
  case Nil
  then show ?case by (cases v) (auto split: option.splits)
next
  case (Cons a u)
  then show ?case by (auto split: option.splits)
qed

lemma plus_complete:
  "u \<noteq> [] \<Longrightarrow> list_all (inClass c) u \<Longrightarrow> matchRe k v cs \<noteq> None \<Longrightarrow>
     matchRe (Plus c # k) (u @ v) cs \<noteq> None"
  using star_complete [of c "tl u" k v cs] by (cases u) auto

text \<open>\<^verbatim>\<open>exec\<close> finds the leftmost position where the pattern matches.\<close>

lemma exec_None_iff:
  "exec r s = None \<longleftrightarrow> (\<forall>j\<le>length s. matchRe [r] (drop j s) [] = None)"
proof (induction s)
  case Nil
  show ?case by (auto split: option.splits)
next
  case (Cons x xs)
  have "(\<forall>j\<le>length (x # xs). matchRe [r] (drop j (x # xs)) [] = None) \<longleftrightarrow>
        matchRe [r] (x # xs) [] = None \<and> (\<forall>j\<le>length xs. matchRe [r] (drop j xs) [] = None)"
    (is "?L \<longleftrightarrow> ?A \<and> ?B")
  proof
    assume l: ?L
    from l [rule_format, of 0] have ?A by simp
    moreover have ?B
    proof (intro allI impI)
      fix j assume "j \<le> length xs"
      with l [rule_format, of "Suc j"] show "matchRe [r] (drop j xs) [] = None" by simp
    qed
    ultimately show "?A \<and> ?B" ..
  next
    assume ab: "?A \<and> ?B"
    show ?L
    proof (intro allI impI)
      fix j assume j: "j \<le> length (x # xs)"
      show "matchRe [r] (drop j (x # xs)) [] = None"
      proof (cases j)
        case 0
        with ab show ?thesis by simp
      next
        case (Suc j')
        with j ab show ?thesis by simp
      qed
    qed
  qed
  moreover have "exec r (x # xs) = None \<longleftrightarrow> matchRe [r] (x # xs) [] = None \<and> exec r xs = None"
    by (auto split: option.splits)
  ultimately show ?case using Cons.IH by simp
qed

lemma exec_SomeD:
  "exec r s = Some (pre, rest, cs) \<Longrightarrow>
     \<exists>s'. s = pre @ s' \<and> matchRe [r] s' [] = Some (rest, cs)
          \<and> (\<forall>j<length pre. matchRe [r] (drop j s) [] = None)"
proof (induction s arbitrary: pre)
  case Nil
  then show ?case by (auto split: option.splits)
next
  case (Cons x xs)
  show ?case
  proof (cases "matchRe [r] (x # xs) []")
    case (Some y)
    with Cons.prems have "pre = []" "matchRe [r] (x # xs) [] = Some (rest, cs)"
      by (auto split: option.splits)
    then show ?thesis by simp
  next
    case None
    with Cons.prems obtain pre' where pre: "pre = x # pre'" and
      e: "exec r xs = Some (pre', rest, cs)"
      by (auto split: option.splits)
    from Cons.IH [OF e] obtain s' where s': "xs = pre' @ s'"
      "matchRe [r] s' [] = Some (rest, cs)" and
      f: "\<forall>j<length pre'. matchRe [r] (drop j xs) [] = None"
      by blast
    have "matchRe [r] (drop j (x # xs)) [] = None" if "j < length pre" for j
    proof (cases j)
      case 0
      with None show ?thesis by simp
    next
      case (Suc j')
      with that pre f show ?thesis by simp
    qed
    with s' pre show ?thesis by simp
  qed
qed

lemma exec_SomeI:
  "matchRe [r] s' [] = Some (rest, cs) \<Longrightarrow>
   \<forall>j<length pre. matchRe [r] (drop j (pre @ s')) [] = None \<Longrightarrow>
     exec r (pre @ s') = Some (pre, rest, cs)"
proof (induction pre)
  case Nil
  then show ?case by (cases s') simp_all
next
  case (Cons x pre)
  from Cons.prems(2) [rule_format, of 0] have n: "matchRe [r] (x # pre @ s') [] = None"
    by simp
  have "\<forall>j<length pre. matchRe [r] (drop j (pre @ s')) [] = None"
  proof (intro allI impI)
    fix j assume "j < length pre"
    with Cons.prems(2) [rule_format, of "Suc j"]
    show "matchRe [r] (drop j (pre @ s')) [] = None" by simp
  qed
  from Cons.IH [OF Cons.prems(1) this] n show ?case by simp
qed

text \<open>The module pattern matches exactly at the texts that start a module block, and
  its groups hold the name, the port list and the body of the block there.\<close>

lemma list_all_AnyChar: "list_all (inClass AnyChar) u"
  by (simp add: list_all_iff)

lemma list_all_Digit_Word: "list_all isDigit ds \<Longrightarrow> list_all isWord ds"
  by (simp add: list_all_iff isDigit_isWord)

lemma moduleRegex_sound:
  assumes "matchRe [moduleRegex] s [] = Some (rest, cs)"
  shows "\<exists>name pl body. blockAt s name body rest \<and> cs = [(3, body), (2, pl), (1, name)]"
proof -
  from assms obtain sp ds ws sp' pl body where
    s: "s = ''module'' @ sp @ ''_Z'' @ ds @ ws @ sp' @ ''('' @ pl @ '');'' @ body @ ''endmodule'' @ rest"
    and c: "sp \<noteq> []" "list_all isSpace sp" "ds \<noteq> []" "list_all isDigit ds"
      "ws \<noteq> []" "list_all isWord ws" "list_all isSpace sp'"
    and f: "\<forall>i<length pl. \<not> prefix '');'' (drop i (pl @ '');''))"
      "\<forall>i<length body. \<not> prefix ''endmodule'' (drop i (body @ ''endmodule''))"
    and cs: "cs = [(3, body), (2, pl), (1, ''_Z'' @ ds @ ws)]"
    by (rule moduleRegex_matchE)
  have h: "moduleHead s (''_Z'' @ ds @ ws) (pl @ '');'' @ body @ ''endmodule'' @ rest)"
    unfolding moduleHead_def
  proof (intro exI conjI)
    show "s = ''module'' @ sp @ (''_Z'' @ ds @ ws) @ sp' @ ''('' @ pl @ '');'' @ body @ ''endmodule'' @ rest"
      by (simp add: s)
    show "''_Z'' @ ds @ ws = ''_Z'' @ ds @ ws" by (rule refl)
    show "sp \<noteq> []" "list_all isSpace sp" "ds \<noteq> []" "list_all isDigit ds"
      "ws \<noteq> []" "list_all isWord ws" "list_all isSpace sp'"
      by fact+
  qed
  from f have e: "endsAtFirst '');'' pl" "endsAtFirst ''endmodule'' body"
    unfolding endsAtFirst_def .
  from h e have "blockAt s (''_Z'' @ ds @ ws) body rest"
    unfolding blockAt_def by (intro exI [of _ pl] conjI)
  with cs show ?thesis by (intro exI conjI)
qed

lemma moduleRegex_complete:
  assumes "startsBlock s"
  shows "matchRe [moduleRegex] s [] \<noteq> None"
proof -
  let ?L = "LazyStar AnyChar"
  let ?E = "lit ''endmodule''"
  let ?R5 = "seq [lit '');'', Group 3 ?L, ?E]"
  let ?R3b = "seq [lit ''('', Group 2 ?L, lit '');'', Group 3 ?L, ?E]"
  let ?R3 = "seq [Star Space, lit ''('', Group 2 ?L, lit '');'', Group 3 ?L, ?E]"
  let ?R2 = "seq [Group 1 (seq [lit ''_Z'', Plus Digit, Plus Word]), Star Space, lit ''('',
                  Group 2 ?L, lit '');'', Group 3 ?L, ?E]"
  from assms obtain sp ds ws sp' pl body rest where
    s: "s = ''module'' @ sp @ (''_Z'' @ ds @ ws) @ sp' @ ''('' @ pl @ '');'' @ body @ ''endmodule'' @ rest"
    and sp: "sp \<noteq> []" "list_all isSpace sp"
    and ds: "ds \<noteq> []" "list_all isDigit ds"
    and ws: "ws \<noteq> []" "list_all isWord ws"
    and sp': "list_all isSpace sp'"
    unfolding startsBlock_def moduleHead_def by blast
  let ?s9 = "body @ ''endmodule'' @ rest"
  let ?s7 = "pl @ '');'' @ ?s9"
  let ?s5 = "sp' @ ''('' @ ?s7"
  have c11: "matchRe [Close 3 t0, seq [?E]] (''endmodule'' @ rest) cs \<noteq> None" for t0 cs
    by (simp add: matchRe_seq_Cons matchRe_seq_Nil matchRe_lit)
  have c10: "matchRe [?L, Close 3 t0, seq [?E]] ?s9 cs \<noteq> None" for t0 cs
    using list_all_AnyChar c11 by (rule lazy_complete)
  have c9: "matchRe [Close 2 t0, ?R5] ('');'' @ ?s9) cs \<noteq> None" for t0 cs
    using c10 by (simp add: matchRe_seq_Cons matchRe_lit)
  have c8: "matchRe [?L, Close 2 t0, ?R5] ?s7 cs \<noteq> None" for t0 cs
    using list_all_AnyChar c9 by (rule lazy_complete)
  have c7: "matchRe [?R3b] (''('' @ ?s7) cs \<noteq> None" for cs
    using c8 by (simp add: matchRe_seq_Cons matchRe_lit)
  have c6: "matchRe [Star Space, ?R3b] ?s5 cs \<noteq> None" for cs
  proof (rule star_complete)
    show "list_all (inClass Space) sp'" using sp' by (simp add: list_all_iff)
    show "matchRe [?R3b] (''('' @ ?s7) cs \<noteq> None" by (rule c7)
  qed
  have c5: "matchRe [seq [], Close 1 t0, ?R3] ?s5 cs \<noteq> None" for t0 cs
  proof -
    have "matchRe [seq [], Close 1 t0, ?R3] ?s5 cs =
          matchRe [Star Space, ?R3b] ?s5 ((1, take (length t0 - length ?s5) t0) # cs)"
      by (simp add: matchRe_seq_Cons matchRe_seq_Nil)
    with c6 show ?thesis by simp
  qed
  have c4: "matchRe [Plus Word, seq [], Close 1 t0, ?R3] (ws @ ?s5) cs \<noteq> None" for t0 cs
  proof (rule plus_complete)
    show "ws \<noteq> []" by fact
    show "list_all (inClass Word) ws" using ws(2) by (simp add: list_all_iff)
    show "matchRe [seq [], Close 1 t0, ?R3] ?s5 cs \<noteq> None" by (rule c5)
  qed
  have c3: "matchRe [Plus Digit, seq [Plus Word], Close 1 t0, ?R3] (ds @ ws @ ?s5) cs \<noteq> None"
    for t0 cs
  proof (rule plus_complete)
    show "ds \<noteq> []" by fact
    show "list_all (inClass Digit) ds" using ds(2) by (simp add: list_all_iff)
    have "matchRe [seq [Plus Word], Close 1 t0, ?R3] (ws @ ?s5) cs =
          matchRe [Plus Word, seq [], Close 1 t0, ?R3] (ws @ ?s5) cs"
      by (rule matchRe_seq_Cons)
    with c4 show "matchRe [seq [Plus Word], Close 1 t0, ?R3] (ws @ ?s5) cs \<noteq> None"
      by simp
  qed
  have c2: "matchRe [?R2] (''_Z'' @ ds @ ws @ ?s5) cs \<noteq> None" for cs
  proof -
    have "matchRe [?R2] (''_Z'' @ ds @ ws @ ?s5) cs =
          matchRe [Plus Digit, seq [Plus Word], Close 1 (''_Z'' @ ds @ ws @ ?s5), ?R3]
            (ds @ ws @ ?s5) cs"
      by (simp add: matchRe_seq_Cons matchRe_lit)
    with c3 show ?thesis by simp
  qed
  have c1: "matchRe [Plus Space, ?R2] (sp @ ''_Z'' @ ds @ ws @ ?s5) cs \<noteq> None" for cs
  proof (rule plus_complete)
    show "sp \<noteq> []" by fact
    show "list_all (inClass Space) sp" using sp(2) by (simp add: list_all_iff)
    show "matchRe [?R2] (''_Z'' @ ds @ ws @ ?s5) cs \<noteq> None" by (rule c2)
  qed
  have "matchRe [moduleRegex] (''module'' @ sp @ ''_Z'' @ ds @ ws @ ?s5) [] =
        matchRe [Plus Space, ?R2] (sp @ ''_Z'' @ ds @ ws @ ?s5) []"
    by (simp add: moduleRegex_def matchRe_seq_Cons matchRe_lit)
  with c1 have "matchRe [moduleRegex] (''module'' @ sp @ ''_Z'' @ ds @ ws @ ?s5) [] \<noteq> None"
    by simp
  moreover have "s = ''module'' @ sp @ ''_Z'' @ ds @ ws @ ?s5"
    by (simp add: s)
  ultimately show ?thesis by simp
qed

text \<open>The head of a module block, and so the block, is determined by the text.\<close>

lemma moduleHead_unique:
  assumes "moduleHead s n t" and "moduleHead s n' t'"
  shows "n = n' \<and> t = t'"
proof -
  from assms(1) obtain sp ds ws sp1 where
    s: "s = ''module'' @ sp @ n @ sp1 @ ''('' @ t" and n: "n = ''_Z'' @ ds @ ws"
    and c: "list_all isSpace sp" "list_all isDigit ds" "list_all isWord ws" "list_all isSpace sp1"
    unfolding moduleHead_def by blast
  from assms(2) obtain sp' ds' ws' sp1' where
    s': "s = ''module'' @ sp' @ n' @ sp1' @ ''('' @ t'" and n': "n' = ''_Z'' @ ds' @ ws'"
    and c': "list_all isSpace sp'" "list_all isDigit ds'" "list_all isWord ws'"
      "list_all isSpace sp1'"
    unfolding moduleHead_def by blast
  from s s' have e1: "sp @ (n @ sp1 @ ''('' @ t) = sp' @ (n' @ sp1' @ ''('' @ t')"
    by simp
  have "sp = sp' \<and> n @ sp1 @ ''('' @ t = n' @ sp1' @ ''('' @ t'"
    using c(1) c'(1) e1
  proof (rule run_unique)
    show "n @ sp1 @ ''('' @ t = [] \<or> \<not> isSpace (hd (n @ sp1 @ ''('' @ t))"
      by (simp add: n isSpace_chars)
    show "n' @ sp1' @ ''('' @ t' = [] \<or> \<not> isSpace (hd (n' @ sp1' @ ''('' @ t'))"
      by (simp add: n' isSpace_chars)
  qed
  then have e2: "(ds @ ws) @ (sp1 @ ''('' @ t) = (ds' @ ws') @ (sp1' @ ''('' @ t')"
    by (simp add: n n')
  have nw: "x = [] \<or> \<not> isWord (hd x)" if "x = sp2 @ ''('' @ t2" "list_all isSpace sp2"
    for x sp2 t2
    using that by (cases sp2) (simp_all add: isWord_chars isSpace_not_isWord)
  have "ds @ ws = ds' @ ws' \<and> sp1 @ ''('' @ t = sp1' @ ''('' @ t'"
  proof (rule run_unique [OF _ _ e2])
    show "list_all isWord (ds @ ws)" using c(2,3) by (simp add: list_all_Digit_Word)
    show "list_all isWord (ds' @ ws')" using c'(2,3) by (simp add: list_all_Digit_Word)
    show "sp1 @ ''('' @ t = [] \<or> \<not> isWord (hd (sp1 @ ''('' @ t))"
      by (rule nw [OF refl c(4)])
    show "sp1' @ ''('' @ t' = [] \<or> \<not> isWord (hd (sp1' @ ''('' @ t'))"
      by (rule nw [OF refl c'(4)])
  qed
  then have e3: "ds @ ws = ds' @ ws'" and e4: "sp1 @ (''('' @ t) = sp1' @ (''('' @ t')"
    by simp_all
  have "sp1 = sp1' \<and> ''('' @ t = ''('' @ t'"
    using c(4) c'(4) e4
  proof (rule run_unique)
    show "''('' @ t = [] \<or> \<not> isSpace (hd (''('' @ t))" by (simp add: isSpace_chars)
    show "''('' @ t' = [] \<or> \<not> isSpace (hd (''('' @ t'))" by (simp add: isSpace_chars)
  qed
  with e3 show ?thesis by (simp add: n n')
qed

lemma blockAt_unique:
  assumes "blockAt s n b r" and "blockAt s n' b' r'"
  shows "n = n' \<and> b = b' \<and> r = r'"
proof -
  from assms(1) obtain pl where
    h: "moduleHead s n (pl @ '');'' @ b @ ''endmodule'' @ r)"
    and f: "endsAtFirst '');'' pl" "endsAtFirst ''endmodule'' b"
    unfolding blockAt_def by blast
  from assms(2) obtain pl' where
    h': "moduleHead s n' (pl' @ '');'' @ b' @ ''endmodule'' @ r')"
    and f': "endsAtFirst '');'' pl'" "endsAtFirst ''endmodule'' b'"
    unfolding blockAt_def by blast
  from moduleHead_unique [OF h h'] have n: "n = n'" and
    e: "pl @ '');'' @ (b @ ''endmodule'' @ r) = pl' @ '');'' @ (b' @ ''endmodule'' @ r')"
    by simp_all
  from endsAtFirst_unique [OF f(1) f'(1) e]
  have e2: "b @ ''endmodule'' @ r = b' @ ''endmodule'' @ r'" by simp
  from endsAtFirst_unique [OF f(2) f'(2) e2] n show ?thesis by simp
qed

lemma blockAt_startsBlock: "blockAt s n b r \<Longrightarrow> startsBlock s"
  unfolding blockAt_def startsBlock_def by blast

lemma moduleRegex_None: "matchRe [moduleRegex] s [] = None \<longleftrightarrow> \<not> startsBlock s"
proof
  assume n: "matchRe [moduleRegex] s [] = None"
  show "\<not> startsBlock s"
  proof
    assume "startsBlock s"
    from moduleRegex_complete [OF this] n show False by (rule notE)
  qed
next
  assume n: "\<not> startsBlock s"
  show "matchRe [moduleRegex] s [] = None"
  proof (rule ccontr)
    assume "matchRe [moduleRegex] s [] \<noteq> None"
    then obtain rest cs where "matchRe [moduleRegex] s [] = Some (rest, cs)" by auto
    from moduleRegex_sound [OF this] obtain name body where "blockAt s name body rest"
      by blast
    from n blockAt_startsBlock [OF this] show False by (rule notE)
  qed
qed

lemma moduleRegex_blockAt:
  assumes "blockAt s name body rest"
  shows "\<exists>pl. matchRe [moduleRegex] s [] = Some (rest, [(3, body), (2, pl), (1, name)])"
proof -
  from moduleRegex_complete [OF blockAt_startsBlock [OF assms]]
  obtain rest' cs where m: "matchRe [moduleRegex] s [] = Some (rest', cs)" by auto
  from moduleRegex_sound [OF m] obtain name' pl body' where
    b: "blockAt s name' body' rest'" and cs: "cs = [(3, body'), (2, pl), (1, name')]"
    by blast
  from blockAt_unique [OF assms b] m cs show ?thesis by simp
qed

text \<open>The port pattern matches exactly at the texts that start a port declaration, and
  the port made of the match is the declared one.\<close>

lemma portRegex_sound:
  assumes "matchRe [portRegex] s [] = Some (rest, cs)"
  shows "declAt s (portOfMatch cs) rest"
proof -
  let ?p = "portOfMatch cs"
  from portRegex_match [OF assms] obtain kw sp rng nm sp' where
    s: "s = kw @ sp @ rng @ nm @ sp' @ '';'' @ rest"
    and kw: "kw = ''input'' \<or> kw = ''output''"
    and c: "sp \<noteq> []" "list_all isSpace sp" "nm \<noteq> []" "list_all isWord nm" "list_all isSpace sp'"
    and d: "(rng = [] \<and>
              ?p = \<lparr>port_name = nm, port_direction = directionOf (Some kw),
                      port_msb = 0, port_lsb = 0\<rparr>)
            \<or> (\<exists>m l sp2. rng = ''['' @ m @ '':'' @ l @ '']'' @ sp2
                  \<and> m \<noteq> [] \<and> list_all isDigit m \<and> l \<noteq> [] \<and> list_all isDigit l
                  \<and> sp2 \<noteq> [] \<and> list_all isSpace sp2
                  \<and> ?p = \<lparr>port_name = nm, port_direction = directionOf (Some kw),
                            port_msb = parseInt m, port_lsb = parseInt l\<rparr>)"
    by blast
  from d have f: "port_name ?p = nm" "port_direction ?p = directionOf (Some kw)"
    by auto
  from kw f(2) have dir: "kw = ''input'' \<and> port_direction ?p = Input
                           \<or> kw = ''output'' \<and> port_direction ?p = Output"
    by (auto simp: directionOf_def)
  from d have r: "rng = [] \<and> port_msb ?p = 0 \<and> port_lsb ?p = 0
             \<or> (\<exists>m l sp2. rng = ''['' @ m @ '':'' @ l @ '']'' @ sp2
                    \<and> m \<noteq> [] \<and> list_all isDigit m \<and> port_msb ?p = parseInt m
                    \<and> l \<noteq> [] \<and> list_all isDigit l \<and> port_lsb ?p = parseInt l
                    \<and> sp2 \<noteq> [] \<and> list_all isSpace sp2)"
  proof
    assume "rng = [] \<and> ?p = \<lparr>port_name = nm, port_direction = directionOf (Some kw),
                      port_msb = 0, port_lsb = 0\<rparr>"
    then show ?thesis by simp
  next
    assume "\<exists>m l sp2. rng = ''['' @ m @ '':'' @ l @ '']'' @ sp2
                  \<and> m \<noteq> [] \<and> list_all isDigit m \<and> l \<noteq> [] \<and> list_all isDigit l
                  \<and> sp2 \<noteq> [] \<and> list_all isSpace sp2
                  \<and> ?p = \<lparr>port_name = nm, port_direction = directionOf (Some kw),
                            port_msb = parseInt m, port_lsb = parseInt l\<rparr>"
    then obtain m l sp2 where "rng = ''['' @ m @ '':'' @ l @ '']'' @ sp2"
      "m \<noteq> []" "list_all isDigit m" "l \<noteq> []" "list_all isDigit l"
      "sp2 \<noteq> []" "list_all isSpace sp2"
      "?p = \<lparr>port_name = nm, port_direction = directionOf (Some kw),
                            port_msb = parseInt m, port_lsb = parseInt l\<rparr>"
      by blast
    then have "rng = ''['' @ m @ '':'' @ l @ '']'' @ sp2
                    \<and> m \<noteq> [] \<and> list_all isDigit m \<and> port_msb ?p = parseInt m
                    \<and> l \<noteq> [] \<and> list_all isDigit l \<and> port_lsb ?p = parseInt l
                    \<and> sp2 \<noteq> [] \<and> list_all isSpace sp2"
      by simp
    then show ?thesis by blast
  qed
  show ?thesis
    unfolding declAt_def
  proof (intro exI conjI)
    show "s = kw @ sp @ rng @ nm @ sp' @ '';'' @ rest" by (rule s)
    show "kw = ''input'' \<and> port_direction ?p = Input
          \<or> kw = ''output'' \<and> port_direction ?p = Output" by (rule dir)
    show "sp \<noteq> []" "list_all isSpace sp" "nm \<noteq> []" "list_all isWord nm" "list_all isSpace sp'"
      by fact+
    show "port_name ?p = nm" by (rule f(1))
    show "rng = [] \<and> port_msb ?p = 0 \<and> port_lsb ?p = 0
             \<or> (\<exists>m l sp2. rng = ''['' @ m @ '':'' @ l @ '']'' @ sp2
                    \<and> m \<noteq> [] \<and> list_all isDigit m \<and> port_msb ?p = parseInt m
                    \<and> l \<noteq> [] \<and> list_all isDigit l \<and> port_lsb ?p = parseInt l
                    \<and> sp2 \<noteq> [] \<and> list_all isSpace sp2)" by (rule r)
  qed
qed

lemma alt_complete:
  "matchRe (a # k) s cs \<noteq> None \<or> matchRe (b # k) s cs \<noteq> None \<Longrightarrow>
     matchRe (Alt a b # k) s cs \<noteq> None"
  by (auto split: option.splits)

lemma opt_complete:
  "matchRe (a # k) s cs \<noteq> None \<or> matchRe k s cs \<noteq> None \<Longrightarrow>
     matchRe (Opt a # k) s cs \<noteq> None"
  by (auto split: option.splits)

lemma portRegex_tail_complete:
  assumes "nm \<noteq> []" and "list_all isWord nm" and "list_all isSpace sp'"
  shows "matchRe [seq [Group 4 (Plus Word), Star Space, lit '';'']] (nm @ sp' @ '';'' @ rest) cs
           \<noteq> None"
proof -
  have t0: "matchRe [seq [lit '';'']] ('';'' @ rest) cs \<noteq> None" for cs
    by (simp add: matchRe_seq_Cons matchRe_seq_Nil matchRe_lit)
  have t1: "matchRe [Star Space, seq [lit '';'']] (sp' @ '';'' @ rest) cs \<noteq> None" for cs
  proof (rule star_complete)
    show "list_all (inClass Space) sp'" using assms(3) by (simp add: list_all_iff)
    show "matchRe [seq [lit '';'']] ('';'' @ rest) cs \<noteq> None" by (rule t0)
  qed
  have t2: "matchRe [Close 4 t, seq [Star Space, lit '';'']] (sp' @ '';'' @ rest) cs \<noteq> None"
    for t cs
  proof -
    have "matchRe [Close 4 t, seq [Star Space, lit '';'']] (sp' @ '';'' @ rest) cs =
          matchRe [Star Space, seq [lit '';'']] (sp' @ '';'' @ rest)
            ((4, take (length t - length (sp' @ '';'' @ rest)) t) # cs)"
      by (simp add: matchRe_seq_Cons)
    with t1 show ?thesis by simp
  qed
  have t3: "matchRe [Plus Word, Close 4 t, seq [Star Space, lit '';'']]
              (nm @ sp' @ '';'' @ rest) cs \<noteq> None" for t cs
  proof (rule plus_complete)
    show "nm \<noteq> []" by fact
    show "list_all (inClass Word) nm" using assms(2) by (simp add: list_all_iff)
    show "matchRe [Close 4 t, seq [Star Space, lit '';'']] (sp' @ '';'' @ rest) cs \<noteq> None"
      by (rule t2)
  qed
  have "matchRe [seq [Group 4 (Plus Word), Star Space, lit '';'']] (nm @ sp' @ '';'' @ rest) cs =
        matchRe [Plus Word, Close 4 (nm @ sp' @ '';'' @ rest), seq [Star Space, lit '';'']]
          (nm @ sp' @ '';'' @ rest) cs"
    by (simp add: matchRe_seq_Cons)
  with t3 show ?thesis by simp
qed

lemma portRegex_range_complete:
  assumes "m \<noteq> []" and "list_all isDigit m" and "l \<noteq> []" and "list_all isDigit l"
    and "sp2 \<noteq> []" and "list_all isSpace sp2"
    and "\<And>cs. matchRe [T] x cs \<noteq> None"
  shows "matchRe [seq [lit ''['', Group 2 (Plus Digit), lit '':'', Group 3 (Plus Digit),
                       lit '']'', Plus Space], T]
           (''['' @ m @ '':'' @ l @ '']'' @ sp2 @ x) cs \<noteq> None"
proof -
  let ?s5 = "sp2 @ x"
  let ?s4 = "'']'' @ ?s5"
  let ?s3 = "l @ ?s4"
  let ?s2 = "'':'' @ ?s3"
  let ?s1 = "m @ ?s2"
  let ?K3 = "seq [lit '']'', Plus Space]"
  let ?K2 = "seq [lit '':'', Group 3 (Plus Digit), lit '']'', Plus Space]"
  have r6: "matchRe [seq [], T] x cs \<noteq> None" for cs
    using assms(7) by (simp add: matchRe_seq_Nil)
  have r5: "matchRe [Plus Space, seq [], T] ?s5 cs \<noteq> None" for cs
  proof (rule plus_complete)
    show "sp2 \<noteq> []" by fact
    show "list_all (inClass Space) sp2" using assms(6) by (simp add: list_all_iff)
    show "matchRe [seq [], T] x cs \<noteq> None" by (rule r6)
  qed
  have r4: "matchRe [Close 3 t, ?K3, T] ?s4 cs \<noteq> None" for t cs
  proof -
    have "matchRe [Close 3 t, ?K3, T] ?s4 cs =
          matchRe [Plus Space, seq [], T] ?s5 ((3, take (length t - length ?s4) t) # cs)"
      by (simp add: matchRe_seq_Cons matchRe_lit)
    with r5 show ?thesis by simp
  qed
  have r3: "matchRe [Plus Digit, Close 3 t, ?K3, T] ?s3 cs \<noteq> None" for t cs
  proof (rule plus_complete)
    show "l \<noteq> []" by fact
    show "list_all (inClass Digit) l" using assms(4) by (simp add: list_all_iff)
    show "matchRe [Close 3 t, ?K3, T] ?s4 cs \<noteq> None" by (rule r4)
  qed
  have r2: "matchRe [Close 2 t, ?K2, T] ?s2 cs \<noteq> None" for t cs
  proof -
    have "matchRe [Close 2 t, ?K2, T] ?s2 cs =
          matchRe [Plus Digit, Close 3 ?s3, ?K3, T] ?s3 ((2, take (length t - length ?s2) t) # cs)"
      by (simp add: matchRe_seq_Cons matchRe_lit)
    with r3 show ?thesis by simp
  qed
  have r1: "matchRe [Plus Digit, Close 2 t, ?K2, T] ?s1 cs \<noteq> None" for t cs
  proof (rule plus_complete)
    show "m \<noteq> []" by fact
    show "list_all (inClass Digit) m" using assms(2) by (simp add: list_all_iff)
    show "matchRe [Close 2 t, ?K2, T] ?s2 cs \<noteq> None" by (rule r2)
  qed
  have "matchRe [seq [lit ''['', Group 2 (Plus Digit), lit '':'', Group 3 (Plus Digit),
                       lit '']'', Plus Space], T] (''['' @ ?s1) cs =
        matchRe [Plus Digit, Close 2 ?s1, ?K2, T] ?s1 cs"
    by (simp add: matchRe_seq_Cons matchRe_lit)
  with r1 show ?thesis by simp
qed

lemma portRegex_complete:
  assumes "startsDecl s"
  shows "matchRe [portRegex] s [] \<noteq> None"
proof -
  let ?T = "seq [Group 4 (Plus Word), Star Space, lit '';'']"
  let ?O = "seq [lit ''['', Group 2 (Plus Digit), lit '':'', Group 3 (Plus Digit), lit '']'', Plus Space]"
  let ?P3 = "seq [Opt ?O, Group 4 (Plus Word), Star Space, lit '';'']"
  let ?P2 = "seq [Plus Space, Opt ?O, Group 4 (Plus Word), Star Space, lit '';'']"
  from assms obtain p rest kw sp rng nm sp' where
    s: "s = kw @ sp @ rng @ nm @ sp' @ '';'' @ rest"
    and kw: "kw = ''input'' \<or> kw = ''output''"
    and sp: "sp \<noteq> []" "list_all isSpace sp"
    and nm: "nm \<noteq> []" "list_all isWord nm"
    and sp': "list_all isSpace sp'"
    and r: "rng = [] \<or> (\<exists>m l sp2. rng = ''['' @ m @ '':'' @ l @ '']'' @ sp2
                    \<and> m \<noteq> [] \<and> list_all isDigit m
                    \<and> l \<noteq> [] \<and> list_all isDigit l
                    \<and> sp2 \<noteq> [] \<and> list_all isSpace sp2)"
    unfolding startsDecl_def declAt_def by blast
  let ?x = "nm @ sp' @ '';'' @ rest"
  have t: "matchRe [?T] ?x cs \<noteq> None" for cs
    by (rule portRegex_tail_complete [OF nm sp'])
  have o: "matchRe [Opt ?O, ?T] (rng @ ?x) cs \<noteq> None" for cs
  proof (rule opt_complete)
    from r show "matchRe [?O, ?T] (rng @ ?x) cs \<noteq> None \<or> matchRe [?T] (rng @ ?x) cs \<noteq> None"
    proof
      assume "rng = []"
      with t show ?thesis by simp
    next
      assume "\<exists>m l sp2. rng = ''['' @ m @ '':'' @ l @ '']'' @ sp2
                    \<and> m \<noteq> [] \<and> list_all isDigit m
                    \<and> l \<noteq> [] \<and> list_all isDigit l
                    \<and> sp2 \<noteq> [] \<and> list_all isSpace sp2"
      then obtain m l sp2 where rng: "rng = ''['' @ m @ '':'' @ l @ '']'' @ sp2"
        and c: "m \<noteq> []" "list_all isDigit m" "l \<noteq> []" "list_all isDigit l"
          "sp2 \<noteq> []" "list_all isSpace sp2"
        by blast
      from portRegex_range_complete [OF c t, of cs]
      have "matchRe [?O, ?T] (rng @ ?x) cs \<noteq> None" by (simp add: rng)
      then show ?thesis ..
    qed
  qed
  have p3: "matchRe [?P3] (rng @ ?x) cs \<noteq> None" for cs
  proof -
    have "matchRe [?P3] (rng @ ?x) cs = matchRe [Opt ?O, ?T] (rng @ ?x) cs"
      by (rule matchRe_seq_Cons)
    with o show ?thesis by simp
  qed
  have p2: "matchRe [Plus Space, ?P3] (sp @ rng @ ?x) cs \<noteq> None" for cs
  proof (rule plus_complete)
    show "sp \<noteq> []" by fact
    show "list_all (inClass Space) sp" using sp(2) by (simp add: list_all_iff)
    show "matchRe [?P3] (rng @ ?x) cs \<noteq> None" by (rule p3)
  qed
  have k: "matchRe [lit w, Close 1 t0, ?P2] (w @ sp @ rng @ ?x) cs \<noteq> None" for w t0 cs
  proof -
    have "matchRe [lit w, Close 1 t0, ?P2] (w @ sp @ rng @ ?x) cs =
          matchRe [Plus Space, ?P3] (sp @ rng @ ?x)
            ((1, take (length t0 - length (sp @ rng @ ?x)) t0) # cs)"
      by (simp add: matchRe_seq_Cons matchRe_lit)
    with p2 show ?thesis by simp
  qed
  have a: "matchRe [Alt (lit ''input'') (lit ''output''), Close 1 s, ?P2] s [] \<noteq> None"
  proof (rule alt_complete)
    from kw show "matchRe [lit ''input'', Close 1 s, ?P2] s [] \<noteq> None
                  \<or> matchRe [lit ''output'', Close 1 s, ?P2] s [] \<noteq> None"
    proof
      assume "kw = ''input''"
      with s have "s = ''input'' @ sp @ rng @ ?x" by simp
      with k [of "''input''" s "[]"] show ?thesis by simp
    next
      assume "kw = ''output''"
      with s have "s = ''output'' @ sp @ rng @ ?x" by simp
      with k [of "''output''" s "[]"] show ?thesis by simp
    qed
  qed
  have "matchRe [portRegex] s [] =
        matchRe [Alt (lit ''input'') (lit ''output''), Close 1 s, ?P2] s []"
    by (simp add: portRegex_def matchRe_seq_Cons)
  with a show ?thesis by simp
qed

text \<open>A port declaration is determined by the text.\<close>

lemma declTail_unique:
  assumes "nm @ sp @ '';'' @ r = nm' @ sp' @ '';'' @ r'"
    and "list_all isWord nm" and "list_all isSpace sp"
    and "list_all isWord nm'" and "list_all isSpace sp'"
  shows "nm = nm' \<and> r = r'"
proof -
  have nw: "x = [] \<or> \<not> isWord (hd x)" if "x = sp2 @ '';'' @ t2" "list_all isSpace sp2"
    for x sp2 t2
    using that by (cases sp2) (simp_all add: isWord_chars isSpace_not_isWord)
  from assms(1) have e: "nm @ (sp @ '';'' @ r) = nm' @ (sp' @ '';'' @ r')" by simp
  have "nm = nm' \<and> sp @ '';'' @ r = sp' @ '';'' @ r'"
    using assms(2,4) e
  proof (rule run_unique)
    show "sp @ '';'' @ r = [] \<or> \<not> isWord (hd (sp @ '';'' @ r))"
      by (rule nw [OF refl assms(3)])
    show "sp' @ '';'' @ r' = [] \<or> \<not> isWord (hd (sp' @ '';'' @ r'))"
      by (rule nw [OF refl assms(5)])
  qed
  then have n: "nm = nm'" and e2: "sp @ ('';'' @ r) = sp' @ ('';'' @ r')" by simp_all
  have "sp = sp' \<and> '';'' @ r = '';'' @ r'"
    using assms(3,5) e2
  proof (rule run_unique)
    show "'';'' @ r = [] \<or> \<not> isSpace (hd ('';'' @ r))" by (simp add: isSpace_chars)
    show "'';'' @ r' = [] \<or> \<not> isSpace (hd ('';'' @ r'))" by (simp add: isSpace_chars)
  qed
  with n show ?thesis by simp
qed

lemma declRange_unique:
  assumes "''['' @ m @ '':'' @ l @ '']'' @ sp2 @ y = ''['' @ m' @ '':'' @ l' @ '']'' @ sp2' @ y'"
    and "list_all isDigit m" and "list_all isDigit l" and "list_all isSpace sp2"
    and "list_all isDigit m'" and "list_all isDigit l'" and "list_all isSpace sp2'"
    and "y = [] \<or> \<not> isSpace (hd y)" and "y' = [] \<or> \<not> isSpace (hd y')"
  shows "m = m' \<and> l = l' \<and> y = y'"
proof -
  from assms(1) have e1: "m @ ('':'' @ l @ '']'' @ sp2 @ y) = m' @ ('':'' @ l' @ '']'' @ sp2' @ y')"
    by simp
  have "m = m' \<and> '':'' @ l @ '']'' @ sp2 @ y = '':'' @ l' @ '']'' @ sp2' @ y'"
    using assms(2,5) e1
  proof (rule run_unique)
    show "'':'' @ l @ '']'' @ sp2 @ y = [] \<or> \<not> isDigit (hd ('':'' @ l @ '']'' @ sp2 @ y))"
      by (simp add: isDigit_chars)
    show "'':'' @ l' @ '']'' @ sp2' @ y' = [] \<or> \<not> isDigit (hd ('':'' @ l' @ '']'' @ sp2' @ y'))"
      by (simp add: isDigit_chars)
  qed
  then have m: "m = m'" and e2: "l @ ('']'' @ sp2 @ y) = l' @ ('']'' @ sp2' @ y')" by simp_all
  have "l = l' \<and> '']'' @ sp2 @ y = '']'' @ sp2' @ y'"
    using assms(3,6) e2
  proof (rule run_unique)
    show "'']'' @ sp2 @ y = [] \<or> \<not> isDigit (hd ('']'' @ sp2 @ y))"
      by (simp add: isDigit_chars)
    show "'']'' @ sp2' @ y' = [] \<or> \<not> isDigit (hd ('']'' @ sp2' @ y'))"
      by (simp add: isDigit_chars)
  qed
  then have l: "l = l'" and e3: "sp2 @ y = sp2' @ y'" by simp_all
  from run_unique [OF assms(4,7) e3 assms(8,9)] m l show ?thesis by simp
qed

lemma declAtE:
  assumes "declAt s p r"
  obtains kw sp rng nm sp1 where
    "s = kw @ sp @ rng @ nm @ sp1 @ '';'' @ r"
    and "kw = ''input'' \<and> port_direction p = Input
         \<or> kw = ''output'' \<and> port_direction p = Output"
    and "sp \<noteq> []" and "list_all isSpace sp"
    and "nm \<noteq> []" and "list_all isWord nm" and "port_name p = nm"
    and "list_all isSpace sp1"
    and "rng = [] \<and> port_msb p = 0 \<and> port_lsb p = 0
         \<or> (\<exists>m l sp2. rng = ''['' @ m @ '':'' @ l @ '']'' @ sp2
                \<and> m \<noteq> [] \<and> list_all isDigit m \<and> port_msb p = parseInt m
                \<and> l \<noteq> [] \<and> list_all isDigit l \<and> port_lsb p = parseInt l
                \<and> sp2 \<noteq> [] \<and> list_all isSpace sp2)"
  using assms unfolding declAt_def by (elim exE conjE) (rule that, assumption+)

lemma word_not_bracket:
  assumes "nm \<noteq> []" and "list_all isWord nm" and "nm @ y = ''['' @ z"
  shows False
proof -
  from assms(1) obtain c cs where n: "nm = c # cs" by (cases nm) auto
  with assms(3) have "c = CHR ''[''" by simp
  with n assms(2) show False by (simp add: isWord_chars)
qed

lemma word_not_space:
  assumes "nm \<noteq> []" and "list_all isWord nm"
  shows "nm @ y = [] \<or> \<not> isSpace (hd (nm @ y))"
proof -
  from assms(1) obtain c cs where n: "nm = c # cs" by (cases nm) auto
  with assms(2) have "isWord c" by simp
  with isSpace_not_isWord [of c] have "\<not> isSpace c" by blast
  with n show ?thesis by simp
qed

lemma declAt_unique:
  assumes "declAt s p r" and "declAt s p' r'"
  shows "p = p' \<and> r = r'"
proof -
  from assms(1) obtain kw sp rng nm sp1 where
    s: "s = kw @ sp @ rng @ nm @ sp1 @ '';'' @ r"
    and kw: "kw = ''input'' \<and> port_direction p = Input
             \<or> kw = ''output'' \<and> port_direction p = Output"
    and sp: "list_all isSpace sp"
    and nm: "nm \<noteq> []" "list_all isWord nm" "port_name p = nm"
    and sp1: "list_all isSpace sp1"
    and rng: "rng = [] \<and> port_msb p = 0 \<and> port_lsb p = 0
             \<or> (\<exists>m l sp2. rng = ''['' @ m @ '':'' @ l @ '']'' @ sp2
                    \<and> m \<noteq> [] \<and> list_all isDigit m \<and> port_msb p = parseInt m
                    \<and> l \<noteq> [] \<and> list_all isDigit l \<and> port_lsb p = parseInt l
                    \<and> sp2 \<noteq> [] \<and> list_all isSpace sp2)"
    by (rule declAtE)
  from assms(2) obtain kw' sp' rng' nm' sp1' where
    s': "s = kw' @ sp' @ rng' @ nm' @ sp1' @ '';'' @ r'"
    and kw': "kw' = ''input'' \<and> port_direction p' = Input
             \<or> kw' = ''output'' \<and> port_direction p' = Output"
    and sp': "list_all isSpace sp'"
    and nm': "nm' \<noteq> []" "list_all isWord nm'" "port_name p' = nm'"
    and sp1': "list_all isSpace sp1'"
    and rng': "rng' = [] \<and> port_msb p' = 0 \<and> port_lsb p' = 0
             \<or> (\<exists>m l sp2. rng' = ''['' @ m @ '':'' @ l @ '']'' @ sp2
                    \<and> m \<noteq> [] \<and> list_all isDigit m \<and> port_msb p' = parseInt m
                    \<and> l \<noteq> [] \<and> list_all isDigit l \<and> port_lsb p' = parseInt l
                    \<and> sp2 \<noteq> [] \<and> list_all isSpace sp2)"
    by (rule declAtE)
  let ?y = "nm @ sp1 @ '';'' @ r"
  let ?y' = "nm' @ sp1' @ '';'' @ r'"
  from s s' have e0: "kw @ sp @ rng @ ?y = kw' @ sp' @ rng' @ ?y'" by simp
  from kw kw' e0 have "kw = kw' \<and> port_direction p = port_direction p'"
    by (elim disjE conjE) simp_all
  then have k: "kw = kw'" and dir: "port_direction p = port_direction p'"
    by simp_all
  from e0 k have e1: "sp @ (rng @ ?y) = sp' @ (rng' @ ?y')" by simp
  have ny: "?y = [] \<or> \<not> isSpace (hd ?y)"
    by (rule word_not_space [OF nm(1,2)])
  have ny': "?y' = [] \<or> \<not> isSpace (hd ?y')"
    by (rule word_not_space [OF nm'(1,2)])
  have nx: "rng @ ?y = [] \<or> \<not> isSpace (hd (rng @ ?y))"
    using rng
  proof (elim disjE exE conjE)
    assume "rng = []"
    with ny show ?thesis by simp
  next
    fix m l sp2 assume "rng = ''['' @ m @ '':'' @ l @ '']'' @ sp2"
    then show ?thesis by (simp add: isSpace_chars)
  qed
  have nx': "rng' @ ?y' = [] \<or> \<not> isSpace (hd (rng' @ ?y'))"
    using rng'
  proof (elim disjE exE conjE)
    assume "rng' = []"
    with ny' show ?thesis by simp
  next
    fix m l sp2 assume "rng' = ''['' @ m @ '':'' @ l @ '']'' @ sp2"
    then show ?thesis by (simp add: isSpace_chars)
  qed
  from run_unique [OF sp sp' e1 nx nx'] have e2: "rng @ ?y = rng' @ ?y'" by simp
  have fin: "nm = nm' \<and> r = r' \<and> port_msb p = port_msb p' \<and> port_lsb p = port_lsb p'"
    using rng
  proof (elim disjE exE conjE)
    assume a: "rng = []" "port_msb p = 0" "port_lsb p = 0"
    from rng' show ?thesis
    proof (elim disjE exE conjE)
      assume a': "rng' = []" "port_msb p' = 0" "port_lsb p' = 0"
      from e2 a(1) a'(1) have "nm @ sp1 @ '';'' @ r = nm' @ sp1' @ '';'' @ r'" by simp
      from declTail_unique [OF this nm(2) sp1 nm'(2) sp1'] a a' show ?thesis by simp
    next
      fix m l sp2 assume "rng' = ''['' @ m @ '':'' @ l @ '']'' @ sp2"
      with e2 a(1) have "nm @ (sp1 @ '';'' @ r) = ''['' @ (m @ '':'' @ l @ '']'' @ sp2 @ ?y')"
        by simp
      from word_not_bracket [OF nm(1,2) this] show ?thesis ..
    qed
  next
    fix m l sp2
    assume d: "rng = ''['' @ m @ '':'' @ l @ '']'' @ sp2" "list_all isDigit m" "list_all isDigit l"
      "list_all isSpace sp2" "port_msb p = parseInt m" "port_lsb p = parseInt l"
    from rng' show ?thesis
    proof (elim disjE exE conjE)
      assume "rng' = []"
      with e2 d(1) have "nm' @ (sp1' @ '';'' @ r') = ''['' @ (m @ '':'' @ l @ '']'' @ sp2 @ ?y)"
        by simp
      from word_not_bracket [OF nm'(1,2) this] show ?thesis ..
    next
      fix m' l' sp2'
      assume d': "rng' = ''['' @ m' @ '':'' @ l' @ '']'' @ sp2'" "list_all isDigit m'"
        "list_all isDigit l'" "list_all isSpace sp2'"
        "port_msb p' = parseInt m'" "port_lsb p' = parseInt l'"
      from e2 d(1) d'(1) have
        "''['' @ m @ '':'' @ l @ '']'' @ sp2 @ ?y = ''['' @ m' @ '':'' @ l' @ '']'' @ sp2' @ ?y'"
        by simp
      from declRange_unique [OF this d(2,3,4) d'(2,3,4) ny ny']
      have ml: "m = m'" "l = l'" and y: "?y = ?y'" by simp_all
      from declTail_unique [OF y nm(2) sp1 nm'(2) sp1'] ml d(5,6) d'(5,6) show ?thesis by simp
    qed
  qed
  have "p = p'"
    by (rule port.equality) (simp_all add: fin nm(3) nm'(3) dir)
  with fin show ?thesis by simp
qed

lemma declAt_startsDecl: "declAt s p r \<Longrightarrow> startsDecl s"
  unfolding startsDecl_def by blast

lemma portRegex_None: "matchRe [portRegex] s [] = None \<longleftrightarrow> \<not> startsDecl s"
proof
  assume n: "matchRe [portRegex] s [] = None"
  show "\<not> startsDecl s"
  proof
    assume "startsDecl s"
    from portRegex_complete [OF this] n show False by (rule notE)
  qed
next
  assume n: "\<not> startsDecl s"
  show "matchRe [portRegex] s [] = None"
  proof (rule ccontr)
    assume "matchRe [portRegex] s [] \<noteq> None"
    then obtain rest cs where "matchRe [portRegex] s [] = Some (rest, cs)" by auto
    from n declAt_startsDecl [OF portRegex_sound [OF this]] show False by (rule notE)
  qed
qed

lemma portRegex_declAt:
  assumes "declAt s p rest"
  shows "\<exists>cs. matchRe [portRegex] s [] = Some (rest, cs) \<and> portOfMatch cs = p"
proof -
  from portRegex_complete [OF declAt_startsDecl [OF assms]]
  obtain rest' cs where m: "matchRe [portRegex] s [] = Some (rest', cs)" by auto
  from declAt_unique [OF assms portRegex_sound [OF m]] m show ?thesis by simp
qed

text \<open>The two loops of port extraction compute what the notions above describe.\<close>

lemma portLoop_acc: "portLoop body acc = acc @ portLoop body []"
proof (induction "length body" arbitrary: body acc rule: less_induct)
  case less
  show ?case
  proof (cases "exec portRegex body")
    case None
    then show ?thesis by (simp add: portLoop.simps [of body])
  next
    case (Some x)
    obtain pre rest m where x: "x = (pre, rest, m)" by (cases x)
    from exec_shorter [OF Some [unfolded x] minLen_portRegex]
    have l: "length rest < length body" .
    from less [OF l, of "acc @ [portOfMatch m]"] less [OF l, of "[portOfMatch m]"]
    show ?thesis
      by (simp add: portLoop.simps [of body] Some x)
  qed
qed

lemma portLoop_declarations: "declarations body (portLoop body [])"
proof (induction "length body" arbitrary: body rule: less_induct)
  case less
  show ?case
  proof (cases "exec portRegex body")
    case None
    then have "\<forall>j\<le>length body. \<not> startsDecl (drop j body)"
      by (simp add: exec_None_iff portRegex_None)
    then have "declarations body []" by (rule declarations.noDecl)
    with None show ?thesis by (simp add: portLoop.simps [of body])
  next
    case (Some x)
    obtain pre rest m where x: "x = (pre, rest, m)" by (cases x)
    from Some x have e: "exec portRegex body = Some (pre, rest, m)" by simp
    from exec_SomeD [OF e] obtain s' where
      b: "body = pre @ s'" and m: "matchRe [portRegex] s' [] = Some (rest, m)"
      and f: "\<forall>j<length pre. matchRe [portRegex] (drop j body) [] = None"
      by blast
    from f have f': "\<forall>j<length pre. \<not> startsDecl (drop j body)"
      by (simp add: portRegex_None)
    from exec_shorter [OF e minLen_portRegex] have "length rest < length body" .
    then have "declarations rest (portLoop rest [])" by (rule less)
    with b f' portRegex_sound [OF m]
    have "declarations body (portOfMatch m # portLoop rest [])"
      by (rule declarations.decl)
    moreover have "portLoop body [] = portOfMatch m # portLoop rest []"
      using portLoop_acc [of rest "[portOfMatch m]"] by (simp add: portLoop.simps [of body] e)
    ultimately show ?thesis by simp
  qed
qed

lemma declarations_portLoop: "declarations body ps \<Longrightarrow> portLoop body [] = ps"
proof (induction rule: declarations.induct)
  case (noDecl body)
  then have "exec portRegex body = None"
    by (simp add: exec_None_iff portRegex_None)
  then show ?case by (simp add: portLoop.simps [of body])
next
  case (decl body pre s p rest ps)
  from portRegex_declAt [OF decl.hyps(3)] obtain cs where
    m: "matchRe [portRegex] s [] = Some (rest, cs)" and p: "portOfMatch cs = p"
    by blast
  from decl.hyps(2) have "\<forall>j<length pre. matchRe [portRegex] (drop j (pre @ s)) [] = None"
    by (simp add: portRegex_None decl.hyps(1))
  from exec_SomeI [OF m this] have e: "exec portRegex body = Some (pre, rest, cs)"
    by (simp add: decl.hyps(1))
  have "portLoop body [] = portOfMatch cs # portLoop rest []"
    using portLoop_acc [of rest "[portOfMatch cs]"] by (simp add: portLoop.simps [of body] e)
  with p decl.IH show ?case by simp
qed

lemma moduleLoop_extraction: "extraction target hdl (moduleLoop target hdl)"
proof (induction "length hdl" arbitrary: hdl rule: less_induct)
  case less
  show ?case
  proof (cases "exec moduleRegex hdl")
    case None
    then have "\<forall>j\<le>length hdl. \<not> startsBlock (drop j hdl)"
      by (simp add: exec_None_iff moduleRegex_None)
    then have "extraction target hdl None" by (rule extraction.notFound)
    with None show ?thesis by (simp add: moduleLoop.simps [of _ hdl])
  next
    case (Some x)
    obtain pre rest m where x: "x = (pre, rest, m)" by (cases x)
    from Some x have e: "exec moduleRegex hdl = Some (pre, rest, m)" by simp
    from exec_SomeD [OF e] obtain s' where
      h: "hdl = pre @ s'" and m: "matchRe [moduleRegex] s' [] = Some (rest, m)"
      and f: "\<forall>j<length pre. matchRe [moduleRegex] (drop j hdl) [] = None"
      by blast
    from f have f': "\<forall>j<length pre. \<not> startsBlock (drop j hdl)"
      by (simp add: moduleRegex_None)
    from moduleRegex_sound [OF m] obtain name pl body where
      b: "blockAt s' name body rest" and cs: "m = [(3, body), (2, pl), (1, name)]"
      by blast
    from exec_shorter [OF e minLen_moduleRegex] have l: "length rest < length hdl" .
    show ?thesis
    proof (cases "includesStr (toLowerCase name) (toLowerCase target)")
      case True
      with h f' b have "extraction target hdl (Some (name, portLoop body []))"
        using portLoop_declarations by (rule extraction.found)
      moreover from True have "moduleLoop target hdl = Some (name, portLoop body [])"
        by (simp add: moduleLoop.simps [of _ hdl] e cs cap_def)
      ultimately show ?thesis by simp
    next
      case False
      with h f' b have "extraction target hdl (moduleLoop target rest)"
        using less [OF l] by (rule extraction.skip)
      moreover from False have "moduleLoop target hdl = moduleLoop target rest"
        by (simp add: moduleLoop.simps [of _ hdl] e cs cap_def)
      ultimately show ?thesis by simp
    qed
  qed
qed

lemma extraction_exec:
  assumes "hdl = pre @ s" and "\<forall>j<length pre. \<not> startsBlock (drop j hdl)"
    and "blockAt s name body rest"
  shows "\<exists>m. exec moduleRegex hdl = Some (pre, rest, m)
             \<and> cap m 1 = Some name \<and> cap m 3 = Some body"
proof -
  from moduleRegex_blockAt [OF assms(3)] obtain pl where
    m: "matchRe [moduleRegex] s [] = Some (rest, [(3, body), (2, pl), (1, name)])"
    by blast
  from assms(2) have "\<forall>j<length pre. matchRe [moduleRegex] (drop j (pre @ s)) [] = None"
    by (simp add: moduleRegex_None assms(1))
  from exec_SomeI [OF m this]
  have "exec moduleRegex hdl = Some (pre, rest, [(3, body), (2, pl), (1, name)])"
    by (simp add: assms(1))
  then show ?thesis by (simp add: cap_def)
qed

lemma extraction_moduleLoop: "extraction target hdl r \<Longrightarrow> moduleLoop target hdl = r"
proof (induction rule: extraction.induct)
  case (notFound hdl)
  then have "exec moduleRegex hdl = None"
    by (simp add: exec_None_iff moduleRegex_None)
  then show ?case by (simp add: moduleLoop.simps [of _ hdl])
next
  case (found hdl pre s name body rest ports)
  from extraction_exec [OF found(1,2,3)] obtain m where
    "exec moduleRegex hdl = Some (pre, rest, m)" "cap m 1 = Some name" "cap m 3 = Some body"
    by blast
  with found(4) declarations_portLoop [OF found(5)] show ?case
    by (simp add: moduleLoop.simps [of _ hdl])
next
  case (skip hdl pre s name body rest r)
  from extraction_exec [OF skip.hyps(1,2,3)] obtain m where
    "exec moduleRegex hdl = Some (pre, rest, m)" "cap m 1 = Some name" "cap m 3 = Some body"
    by blast
  with skip.hyps(4) skip.IH show ?case
    by (simp add: moduleLoop.simps [of _ hdl])
qed

text \<open>
  Claim C1, amended. For every text and every name of a top function, port extraction
  returns \<open>r\<close> exactly if \<open>r\<close> is what \<open>extraction\<close> describes. The module blocks of the text
  are looked for from left to right, the first at the leftmost position where a block
  starts and each further one after the end of the one before. A block is \<^verbatim>\<open>module\<close>, space,
  a mangled name (\<^verbatim>\<open>_Z\<close>, digits, word characters), optional space, an opening parenthesis,
  a port list that ends at the first \<^verbatim>\<open>);\<close> and a body that ends at the first \<^verbatim>\<open>endmodule\<close>.
  The result is the first block whose name contains the top function's name, both taken
  in lower case: its name and the ports that its body declares, from left to right.
  There is no result if no block's name contains the name, or if the file cannot be read.
  A module whose name is not mangled is not a block: it is never the result, whatever its
  name contains.
\<close>

theorem port_extraction:
  "fst (parseHLSVerilogPorts verilogPath topFunctionName w) = r \<longleftrightarrow>
     (case files w verilogPath of
        None \<Rightarrow> r = None
      | Some content \<Rightarrow> extraction topFunctionName content r)"
proof (cases "files w verilogPath")
  case None
  then show ?thesis
    by (auto simp: parseHLSVerilogPorts_def readTextFile_def)
next
  case (Some content)
  have "moduleLoop topFunctionName content = r \<longleftrightarrow> extraction topFunctionName content r"
    using moduleLoop_extraction [of topFunctionName content]
      extraction_moduleLoop [of topFunctionName content r]
    by auto
  with Some show ?thesis
    by (simp add: parseHLSVerilogPorts_def readTextFile_def)
qed

text \<open>The example text: the first block does not contain \<^verbatim>\<open>add\<close>, the second does. The second
  block with its ports is the result; no result, and the first block, are not.\<close>

theorem port_extraction_witness:
  "fst (parseHLSVerilogPorts ''/proj/add.v'' ''add'' exampleWorld) =
     Some (''_Z3ADDii'', examplePorts)
   \<and> extraction ''add'' exampleVerilog (Some (''_Z3ADDii'', examplePorts))
   \<and> \<not> extraction ''add'' exampleVerilog None
   \<and> \<not> extraction ''add'' exampleVerilog
         (Some (''_Z3subii'',
                [\<lparr>port_name = ''x'', port_direction = Input, port_msb = 7, port_lsb = 0\<rparr>]))"
proof -
  have f: "files exampleWorld ''/proj/add.v'' = Some exampleVerilog"
    by (simp add: exampleWorld_def)
  have r: "fst (parseHLSVerilogPorts ''/proj/add.v'' ''add'' exampleWorld) =
     Some (''_Z3ADDii'', examplePorts)"
    by (simp add: parseHLSVerilogPorts_def readTextFile_def f example_moduleLoop)
  from port_extraction [of "''/proj/add.v''" "''add''" exampleWorld
      "Some (''_Z3ADDii'', examplePorts)"] r f
  have a: "extraction ''add'' exampleVerilog (Some (''_Z3ADDii'', examplePorts))"
    by simp
  from port_extraction [of "''/proj/add.v''" "''add''" exampleWorld None] r f
  have b: "\<not> extraction ''add'' exampleVerilog None"
    by simp
  from port_extraction [of "''/proj/add.v''" "''add''" exampleWorld
      "Some (''_Z3subii'',
             [\<lparr>port_name = ''x'', port_direction = Input, port_msb = 7, port_lsb = 0\<rparr>])"] r f
  have c: "\<not> extraction ''add'' exampleVerilog
         (Some (''_Z3subii'',
                [\<lparr>port_name = ''x'', port_direction = Input, port_msb = 7, port_lsb = 0\<rparr>]))"
    by simp
  from r a b c show ?thesis by (intro conjI)
qed

text \<open>The module \<^verbatim>\<open>main\<close> contains the top function name \<^verbatim>\<open>main\<close>, and is not found.\<close>

theorem port_extraction_counterexample:
  "includesStr (toLowerCase ''main'') (toLowerCase ''main'')
   \<and> fst (parseHLSVerilogPorts ''/proj/main.v'' ''main''
            \<lparr>files = [''/proj/main.v'' \<mapsto> unmangledVerilog], trace = []\<rparr>) = None"
proof -
  have "moduleLoop ''main'' unmangledVerilog = None" by code_simp
  moreover have "includesStr (toLowerCase ''main'') (toLowerCase ''main'')" by code_simp
  ultimately show ?thesis
    by (simp add: parseHLSVerilogPorts_def readTextFile_def)
qed

text \<open>A no-break space between \<^verbatim>\<open>module\<close> and the name is space like any other.\<close>

lemma example_nbsp:
  "moduleLoop ''add'' (''module'' @ [CHR 0xA0] @ ''_Z3addii(a); input a; endmodule'') =
     Some (''_Z3addii'', [\<lparr>port_name = ''a'', port_direction = Input, port_msb = 0, port_lsb = 0\<rparr>])"
  by code_simp

section \<open>Artifact names\<close>

text \<open>The extension pattern matches a dot and letters up to the end of the name, so it
  can only match at the last dot; a name that ends in \<^verbatim>\<open>.cpp\<close>, \<^verbatim>\<open>.cc\<close>, \<^verbatim>\<open>.cxx\<close> or
  \<^verbatim>\<open>.c\<close>, in any letter case, loses exactly that ending.\<close>

lemma toLowerChar_dot: "toLowerChar x = CHR ''.'' \<longleftrightarrow> x = CHR ''.''"
  by (auto simp: toLowerChar_def upperLatin1_def lowerLatin1_def split: option.splits if_splits)

lemma toLowerChar_letters:
  "toLowerChar CHR ''c'' = CHR ''c''" "toLowerChar CHR ''p'' = CHR ''p''"
  "toLowerChar CHR ''x'' = CHR ''x''"
  by (simp_all add: toLowerChar_def upperLatin1_def lowerLatin1_def)

lemma letter_not_dot:
  "toLowerChar x = CHR ''c'' \<Longrightarrow> x \<noteq> CHR ''.''"
  "toLowerChar x = CHR ''p'' \<Longrightarrow> x \<noteq> CHR ''.''"
  "toLowerChar x = CHR ''x'' \<Longrightarrow> x \<noteq> CHR ''.''"
  by (auto simp: toLowerChar_def upperLatin1_def lowerLatin1_def)

lemma extRegex_word:
  assumes "matchRe [litI w, Close 1 t, seq [Eol]] t [] = Some (rest, cs)"
    and "w \<in> {''cpp'', ''cc'', ''cxx'', ''c''}"
  shows "rest = [] \<and> CHR ''.'' \<notin> set t"
proof -
  from assms(2) consider "w = ''cpp''" | "w = ''cc''" | "w = ''cxx''" | "w = ''c''" by auto
  then show ?thesis
  proof cases
    case 1
    with assms(1) show ?thesis
      by (auto simp: seq_def litI_def toLowerChar_letters dest!: matchRe_Ch letter_not_dot
            split: if_splits)
  next
    case 2
    with assms(1) show ?thesis
      by (auto simp: seq_def litI_def toLowerChar_letters dest!: matchRe_Ch letter_not_dot
            split: if_splits)
  next
    case 3
    with assms(1) show ?thesis
      by (auto simp: seq_def litI_def toLowerChar_letters dest!: matchRe_Ch letter_not_dot
            split: if_splits)
  next
    case 4
    with assms(1) show ?thesis
      by (auto simp: seq_def litI_def toLowerChar_letters dest!: matchRe_Ch letter_not_dot
            split: if_splits)
  qed
qed

lemma extRegex_match:
  assumes "matchRe [extRegex] s [] = Some (rest, cs)"
  shows "rest = [] \<and> (\<exists>t. s = CHR ''.'' # t \<and> CHR ''.'' \<notin> set t)"
proof -
  let ?A3 = "Alt (litI ''cxx'') (litI ''c'')"
  let ?A2 = "Alt (litI ''cc'') ?A3"
  let ?A = "Alt (litI ''cpp'') ?A2"
  have "matchRe [extRegex] s [] = matchRe [Ch (Lit CHR ''.''), Eps, seq [Group 1 ?A, Eol]] s []"
    by (simp add: extRegex_def seq_def lit_def)
  with assms have "matchRe [Ch (Lit CHR ''.''), Eps, seq [Group 1 ?A, Eol]] s [] = Some (rest, cs)"
    by simp
  from matchRe_Ch [OF this] obtain t where s: "s = CHR ''.'' # t" and
    m0: "matchRe [Eps, seq [Group 1 ?A, Eol]] t [] = Some (rest, cs)"
    by auto
  have "matchRe [Eps, seq [Group 1 ?A, Eol]] t [] = matchRe (?A # [Close 1 t, seq [Eol]]) t []"
    by (simp add: seq_def)
  with m0 have m: "matchRe (?A # [Close 1 t, seq [Eol]]) t [] = Some (rest, cs)"
    by (simp only:)
  from matchRe_Alt [OF m] consider
      "matchRe [litI ''cpp'', Close 1 t, seq [Eol]] t [] = Some (rest, cs)"
    | "matchRe (?A2 # [Close 1 t, seq [Eol]]) t [] = Some (rest, cs)"
    by blast
  then have "rest = [] \<and> CHR ''.'' \<notin> set t"
  proof cases
    case 1
    then show ?thesis by (rule extRegex_word) simp
  next
    case 2
    from matchRe_Alt [OF 2] consider
        "matchRe [litI ''cc'', Close 1 t, seq [Eol]] t [] = Some (rest, cs)"
      | "matchRe (?A3 # [Close 1 t, seq [Eol]]) t [] = Some (rest, cs)"
      by blast
    then show ?thesis
    proof cases
      case 1
      then show ?thesis by (rule extRegex_word) simp
    next
      case 2
      from matchRe_Alt [OF 2] consider
          "matchRe [litI ''cxx'', Close 1 t, seq [Eol]] t [] = Some (rest, cs)"
        | "matchRe [litI ''c'', Close 1 t, seq [Eol]] t [] = Some (rest, cs)"
        by blast
      then show ?thesis
      proof cases
        case 1
        then show ?thesis by (rule extRegex_word) simp
      next
        case 2
        then show ?thesis by (rule extRegex_word) simp
      qed
    qed
  qed
  with s show ?thesis by blast
qed

lemma extRegex_noMatch:
  "CHR ''.'' \<in> set t \<Longrightarrow> matchRe [extRegex] (x # t) [] = None"
proof (rule ccontr)
  assume d: "CHR ''.'' \<in> set t" and "matchRe [extRegex] (x # t) [] \<noteq> None"
  then obtain rest cs where "matchRe [extRegex] (x # t) [] = Some (rest, cs)" by auto
  from extRegex_match [OF this] d show False by auto
qed

lemma exec_extRegex:
  assumes "matchRe [extRegex] (CHR ''.'' # t) [] = Some ([], cs)"
  shows "exec extRegex (b @ CHR ''.'' # t) = Some (b, [], cs)"
proof (induction b)
  case Nil
  from assms show ?case by simp
next
  case (Cons x b)
  have "matchRe [extRegex] (x # b @ CHR ''.'' # t) [] = None"
    by (rule extRegex_noMatch) simp
  with Cons show ?case by simp
qed

lemma extRegex_accepts:
  assumes "toLowerCase e \<in> {''.cpp'', ''.cc'', ''.cxx'', ''.c''}"
  shows "\<exists>t cs. e = CHR ''.'' # t \<and> matchRe [extRegex] (CHR ''.'' # t) [] = Some ([], cs)"
proof -
  from assms consider "toLowerCase e = ''.cpp''" | "toLowerCase e = ''.cc''"
    | "toLowerCase e = ''.cxx''" | "toLowerCase e = ''.c''" by auto
  then show ?thesis
  proof cases
    case 1
    then obtain a b c where e: "e = [CHR ''.'', a, b, c]" and
      l: "toLowerChar a = CHR ''c''" "toLowerChar b = CHR ''p''" "toLowerChar c = CHR ''p''"
      by (auto simp: toLowerCase_def map_eq_Cons_conv toLowerChar_dot)
    have "matchRe [extRegex] [CHR ''.'', a, b, c] [] = Some ([], [(1, [a, b, c])])"
      by (simp add: extRegex_def seq_def lit_def litI_def l toLowerChar_letters)
    with e show ?thesis by blast
  next
    case 2
    then obtain a b where e: "e = [CHR ''.'', a, b]" and
      l: "toLowerChar a = CHR ''c''" "toLowerChar b = CHR ''c''"
      by (auto simp: toLowerCase_def map_eq_Cons_conv toLowerChar_dot)
    have "matchRe [extRegex] [CHR ''.'', a, b] [] = Some ([], [(1, [a, b])])"
      by (simp add: extRegex_def seq_def lit_def litI_def l toLowerChar_letters)
    with e show ?thesis by blast
  next
    case 3
    then obtain a b c where e: "e = [CHR ''.'', a, b, c]" and
      l: "toLowerChar a = CHR ''c''" "toLowerChar b = CHR ''x''" "toLowerChar c = CHR ''x''"
      by (auto simp: toLowerCase_def map_eq_Cons_conv toLowerChar_dot)
    have "matchRe [extRegex] [CHR ''.'', a, b, c] [] = Some ([], [(1, [a, b, c])])"
      by (simp add: extRegex_def seq_def lit_def litI_def l toLowerChar_letters)
    with e show ?thesis by blast
  next
    case 4
    then obtain a where e: "e = [CHR ''.'', a]" and
      l: "toLowerChar a = CHR ''c''"
      by (auto simp: toLowerCase_def map_eq_Cons_conv toLowerChar_dot)
    have "matchRe [extRegex] [CHR ''.'', a] [] = Some ([], [(1, [a])])"
      by (simp add: extRegex_def seq_def lit_def litI_def l toLowerChar_letters)
    with e show ?thesis by blast
  qed
qed

lemma baseNameOf_strip:
  assumes "toLowerCase e \<in> {''.cpp'', ''.cc'', ''.cxx'', ''.c''}"
  shows "baseNameOf (b @ e) = b"
proof -
  from extRegex_accepts [OF assms] obtain t cs where
    e: "e = CHR ''.'' # t" and m: "matchRe [extRegex] (CHR ''.'' # t) [] = Some ([], cs)"
    by blast
  from exec_extRegex [OF m, of b] show ?thesis
    by (simp add: baseNameOf_def e)
qed

text \<open>
  Claim C8. The synthesis command reads \<open><base>.v\<close> in the project directory, where
  \<open><base>\<close> is the name of the first C/C++ source file without its extension, and
  writes \<open><project>_bambu_syn.edf\<close>; from there on every stage reads the file the
  stage before it writes: \<open>_bambu_map.xml\<close>, \<open>_bambu_pack.xml\<close>, \<open>_bambu_place.xml\<close>,
  \<open>_bambu_route.xml\<close>, and bitstream generation writes \<open>_bambu_bit.bit\<close>. The constraint
  file is \<open><project>_bambu_cons.xml\<close>. The names are the ones in the commands' arguments,
  and the output name of every stage is the project name, an underscore and the
  \<^verbatim>\<open>target_file\<close> of the stage in the table of flows.
\<close>

theorem artifact_chain:
  "fst (runBambuSynthFlowCommand e project w) =
     (case find isCSource (file_lists project) of
        None \<Rightarrow> None
      | Some cppFile \<Rightarrow>
          Some \<lparr>program = ''binaries/yosys'',
                args = [''-p'',
                        ''tcl '' @ resolveResource e ''resource/yosys/yosys_fde.tcl'' @
                        '' -l '' @ resolveResource e ''resource/yosys/fdesimlib.v'' @
                        '' -m '' @ resolveResource e ''resource/yosys/techmap.v'' @
                        '' -c '' @ resolveResource e ''resource/yosys/cells_map.v'' @
                        '' -o '' @ synthOutputFileName project,
                        getDirOfFile e (project_path project) @ baseNameOf (file_name cppFile) @ ''.v''],
                cwd = getDirOfFile e (project_path project)\<rparr>)
   \<and> synthOutputFileName project = project_name project @ ''_bambu_syn.edf''
   \<and> take 5 (args (runBambuMapFlowCommand e project)) =
       [''-y'', ''-i'', synthOutputFileName project, ''-o'', mapOutputFileName project]
   \<and> mapOutputFileName project = project_name project @ ''_bambu_map.xml''
   \<and> args (runBambuPackFlowCommand e project) ! 2 = ''-n''
   \<and> args (runBambuPackFlowCommand e project) ! 3 = mapOutputFileName project
   \<and> args (runBambuPackFlowCommand e project) ! 8 = ''-o''
   \<and> args (runBambuPackFlowCommand e project) ! 9 = packOutputFileName project
   \<and> packOutputFileName project = project_name project @ ''_bambu_pack.xml''
   \<and> take 6 (drop 4 (args (placeCommand e project cst))) =
       [''-i'', packOutputFileName project, ''-o'', placeOutputFileName project, ''-c'', cst]
   \<and> placeOutputFileName project = project_name project @ ''_bambu_place.xml''
   \<and> take 4 (drop 2 (args (routeCommand e project cst))) =
       [''-n'', placeOutputFileName project, ''-o'', routeOutputFileName project]
   \<and> routeOutputFileName project = project_name project @ ''_bambu_route.xml''
   \<and> take 4 (drop 4 (args (runBambuGenBitFlowCommand e project))) =
       [''-n'', routeOutputFileName project, ''-b'', genBitOutputFileName project]
   \<and> genBitOutputFileName project = project_name project @ ''_bambu_bit.bit''
   \<and> constraintFileName project = project_name project @ ''_bambu_cons.xml''
   \<and> constraintFilePath e project = getDirOfFile e (project_path project) @ constraintFileName project
   \<and> (toLowerCase ext \<in> {''.cpp'', ''.cc'', ''.cxx'', ''.c''} \<longrightarrow> baseNameOf (base @ ext) = base)
   \<and> map (\<lambda>(stage, target). map_option (\<lambda>t. project_name project @ ''_'' @ t) target) bambuFlows =
       [None, Some (synthOutputFileName project), Some (mapOutputFileName project),
        Some (packOutputFileName project), Some (placeOutputFileName project),
        Some (routeOutputFileName project), Some (genBitOutputFileName project)]"
  by (simp add: baseNameOf_strip bambuFlows_def runBambuSynthFlowCommand_def synthOutputFileName_def synthInputFile_def
        runBambuMapFlowCommand_def mapInputFileName_def mapOutputFileName_def
        runBambuPackFlowCommand_def packInputFileName_def packOutputFileName_def
        placeCommand_def placeInputFileName_def placeOutputFileName_def
        routeCommand_def routeInputFileName_def routeOutputFileName_def
        runBambuGenBitFlowCommand_def genBitInputFileName_def genBitOutputFileName_def
        constraintFileName_def constraintFilePath_def Let_def showFailedNotification_def
        split: option.splits)

text \<open>The example project: \<^verbatim>\<open>add.cpp\<close> gives \<^verbatim>\<open>/proj/add.v\<close>.\<close>

theorem artifact_chain_witness:
  "toLowerCase ''.cpp'' \<in> {''.cpp'', ''.cc'', ''.cxx'', ''.c''}
   \<and> baseNameOf (''add'' @ ''.cpp'') = ''add''
   \<and> fst (runBambuSynthFlowCommand exampleEnv exampleProject emptyWorld) =
       Some \<lparr>program = ''binaries/yosys'',
             args = [''-p'',
                     ''tcl /res/resource/yosys/yosys_fde.tcl -l /res/resource/yosys/fdesimlib.v -m /res/resource/yosys/techmap.v -c /res/resource/yosys/cells_map.v -o demo_bambu_syn.edf'',
                     ''/proj/add.v''],
             cwd = ''/proj/''\<rparr>"
proof -
  have l: "toLowerCase ''.cpp'' \<in> {''.cpp'', ''.cc'', ''.cxx'', ''.c''}"
    by (simp add: toLowerCase_def toLowerChar_def upperLatin1_def lowerLatin1_def)
  have d: "getDirOfFile exampleEnv q = ''/proj/''" "resolveResource exampleEnv q = ''/res/'' @ q" for q
    by (simp_all add: exampleEnv_def)
  have p: "project_name exampleProject = ''demo''" by (simp add: exampleProject_def)
  note chain = artifact_chain [where e = exampleEnv and project = exampleProject
      and w = emptyWorld and ext = "''.cpp''" and base = "''add''"]
  from chain l have b: "baseNameOf (''add'' @ ''.cpp'') = ''add''"
    by blast
  from chain have s: "fst (runBambuSynthFlowCommand exampleEnv exampleProject emptyWorld) =
     (case find isCSource (file_lists exampleProject) of
        None \<Rightarrow> None
      | Some cppFile \<Rightarrow>
          Some \<lparr>program = ''binaries/yosys'',
                args = [''-p'',
                        ''tcl '' @ resolveResource exampleEnv ''resource/yosys/yosys_fde.tcl'' @
                        '' -l '' @ resolveResource exampleEnv ''resource/yosys/fdesimlib.v'' @
                        '' -m '' @ resolveResource exampleEnv ''resource/yosys/techmap.v'' @
                        '' -c '' @ resolveResource exampleEnv ''resource/yosys/cells_map.v'' @
                        '' -o '' @ synthOutputFileName exampleProject,
                        getDirOfFile exampleEnv (project_path exampleProject) @
                        baseNameOf (file_name cppFile) @ ''.v''],
                cwd = getDirOfFile exampleEnv (project_path exampleProject)\<rparr>)"
    by (rule conjunct1)
  have "fst (runBambuSynthFlowCommand exampleEnv exampleProject emptyWorld) =
       Some \<lparr>program = ''binaries/yosys'',
             args = [''-p'',
                     ''tcl /res/resource/yosys/yosys_fde.tcl -l /res/resource/yosys/fdesimlib.v -m /res/resource/yosys/techmap.v -c /res/resource/yosys/cells_map.v -o demo_bambu_syn.edf'',
                     ''/proj/add.v''],
             cwd = ''/proj/''\<rparr>"
  proof -
    from b have b': "baseNameOf ''add.cpp'' = ''add''" by simp
    show ?thesis
      unfolding s example_find
      by (simp add: d synthOutputFileName_def p exampleSource_def b')
  qed
  with l b show ?thesis by blast
qed

end
